theory Spec2Isabelle
  imports Complex_Main
begin

section \<open>Python values and errors\<close>

text \<open>
  The widgets receive Python values (\<open>Any\<close>) and show \<open>str(value)\<close>. Integers are
  unbounded, \<open>None\<close> is a value of its own, and the only use beside \<open>str\<close> is the
  truth test \<open>if weight:\<close> of \<open>MGraph.add_edge\<close>.
\<close>

datatype pyval = PNone | PInt int | PFloat real | PStr string

text \<open>
  What the model takes from outside the repository: Python's \<open>str\<close> on a float, and the
  width and height the renderer gives to a freshly created \<open>Text\<close> in the value font and in
  the index font.
\<close>

record env =
  float_str :: "real \<Rightarrow> string"
  value_size :: "string \<Rightarrow> real \<times> real"
  index_size :: "string \<Rightarrow> real \<times> real"

fun str_nat :: "nat \<Rightarrow> string" where
  "str_nat n =
     (if n < 10 then [''0123456789'' ! n]
      else str_nat (n div 10) @ [''0123456789'' ! (n mod 10)])"

declare str_nat.simps [simp del]

definition str_int :: "int \<Rightarrow> string" where
  "str_int i = (if i < 0 then CHR ''-'' # str_nat (nat (- i)) else str_nat (nat i))"

fun py_str :: "env \<Rightarrow> pyval \<Rightarrow> string" where
  "py_str E PNone = ''None''"
| "py_str E (PInt i) = str_int i"
| "py_str E (PFloat r) = float_str E r"
| "py_str E (PStr s) = s"

text \<open>Python truthiness: \<open>None\<close>, zero and the empty string are false.\<close>

fun truthy :: "pyval \<Rightarrow> bool" where
  "truthy PNone = False"
| "truthy (PInt i) = (i \<noteq> 0)"
| "truthy (PFloat r) = (r \<noteq> 0)"
| "truthy (PStr s) = (s \<noteq> [])"

text \<open>
  Every \<open>raise\<close> of the source and every exception of a Python built-in the source can
  run into is a value. \<open>Exception\<close> carries the message of a bare \<open>raise Exception(...)\<close>.
\<close>

datatype error = IndexError | KeyError | AttributeError | TypeError | Exception string

text \<open>
  A method returns or raises; in both cases the object it mutated is left in some state.
  \<open>Raised e s\<close> keeps the state \<open>s\<close> the object has when the exception leaves the method,
  so that a caller who catches the exception goes on from \<open>s\<close>.
\<close>

datatype 'a outcome = Returned 'a | Raised error 'a

fun state_of :: "'a outcome \<Rightarrow> 'a" where
  "state_of (Returned s) = s"
| "state_of (Raised e s) = s"

fun raised :: "'a outcome \<Rightarrow> bool" where
  "raised (Returned s) = False"
| "raised (Raised e s) = True"

fun error_of :: "'a outcome \<Rightarrow> error option" where
  "error_of (Returned s) = None"
| "error_of (Raised e s) = Some e"

text \<open>
  Python list indexing: \<open>xs[i]\<close> and \<open>xs.pop(i)\<close> accept \<open>-len(xs) \<le> i < len(xs)\<close>, a
  negative index counting from the end, and raise \<open>IndexError\<close> otherwise. A slice
  \<open>xs[i:]\<close> never raises: its start is clipped to the list.
\<close>

definition norm_index :: "nat \<Rightarrow> int \<Rightarrow> nat option" where
  "norm_index n i =
     (if 0 \<le> i \<and> i < int n then Some (nat i)
      else if i < 0 \<and> - int n \<le> i then Some (nat (int n + i))
      else None)"

definition slice_start :: "nat \<Rightarrow> int \<Rightarrow> nat" where
  "slice_start n i = (if i < 0 then nat (max 0 (int n + i)) else min n (nat i))"

section \<open>Vectors and bounding boxes of the renderer\<close>

text \<open>
  Points and directions are numpy arrays of three floats. The model computes with reals
  wherever the claims do not depend on how a sum is rounded, and with float64 rounding in
  \<open>swap\<close>, where one does. The renderer places a mobject through its bounding box only: \<open>get_critical_point\<close> picks,
  per coordinate, the minimum, the middle or the maximum of the box after the sign of the
  direction; \<open>move_to\<close> and \<open>next_to\<close> are shifts by a difference of critical points.
\<close>

type_synonym vec = "real \<times> real \<times> real"

definition ORIGIN :: vec where "ORIGIN = (0, 0, 0)"
definition UP :: vec where "UP = (0, 1, 0)"
definition DOWN :: vec where "DOWN = (0, - 1, 0)"
definition RIGHT :: vec where "RIGHT = (1, 0, 0)"
definition LEFT :: vec where "LEFT = (- 1, 0, 0)"
definition UL :: vec where "UL = (- 1, 1, 0)"
definition UR :: vec where "UR = (1, 1, 0)"

fun vadd :: "vec \<Rightarrow> vec \<Rightarrow> vec" where
  "vadd (a, b, c) (d, e, f) = (a + d, b + e, c + f)"

fun vsub :: "vec \<Rightarrow> vec \<Rightarrow> vec" where
  "vsub (a, b, c) (d, e, f) = (a - d, b - e, c - f)"

fun vneg :: "vec \<Rightarrow> vec" where
  "vneg (a, b, c) = (- a, - b, - c)"

fun smul :: "real \<Rightarrow> vec \<Rightarrow> vec" where
  "smul k (a, b, c) = (k * a, k * b, k * c)"

fun vabs :: "vec \<Rightarrow> vec" where
  "vabs (a, b, c) = (\<bar>a\<bar>, \<bar>b\<bar>, \<bar>c\<bar>)"

fun vmin :: "vec \<Rightarrow> vec \<Rightarrow> vec" where
  "vmin (a, b, c) (d, e, f) = (min a d, min b e, min c f)"

fun vmax :: "vec \<Rightarrow> vec \<Rightarrow> vec" where
  "vmax (a, b, c) (d, e, f) = (max a d, max b e, max c f)"

fun ycoord :: "vec \<Rightarrow> real" where
  "ycoord (a, b, c) = b"

record box =
  lo :: vec
  hi :: vec

definition box_at :: "vec \<Rightarrow> real \<Rightarrow> real \<Rightarrow> box" where
  "box_at c w h = \<lparr>lo = vsub c (w / 2, h / 2, 0), hi = vadd c (w / 2, h / 2, 0)\<rparr>"

definition box_shift :: "vec \<Rightarrow> box \<Rightarrow> box" where
  "box_shift v b = \<lparr>lo = vadd (lo b) v, hi = vadd (hi b) v\<rparr>"

definition box_union :: "box \<Rightarrow> box \<Rightarrow> box" where
  "box_union a b = \<lparr>lo = vmin (lo a) (lo b), hi = vmax (hi a) (hi b)\<rparr>"

definition extremum :: "real \<Rightarrow> real \<Rightarrow> real \<Rightarrow> real" where
  "extremum l h k = (if k < 0 then l else if k = 0 then (l + h) / 2 else h)"

fun critical :: "vec \<Rightarrow> vec \<Rightarrow> vec \<Rightarrow> vec" where
  "critical (lx, ly, lz) (hx, hy, hz) (dx, dy, dz) =
     (extremum lx hx dx, extremum ly hy dy, extremum lz hz dz)"

definition get_critical_point :: "box \<Rightarrow> vec \<Rightarrow> vec" where
  "get_critical_point b d = critical (lo b) (hi b) d"

definition get_center :: "box \<Rightarrow> vec" where
  "get_center b = get_critical_point b ORIGIN"

definition width :: "box \<Rightarrow> real" where
  "width b = fst (hi b) - fst (lo b)"

definition height :: "box \<Rightarrow> real" where
  "height b = fst (snd (hi b)) - fst (snd (lo b))"

text \<open>
  \<open>m.move_to(t, aligned_edge)\<close> shifts \<open>m\<close> by \<open>move_to_shift (box of m) (box of t) aligned_edge\<close>;
  \<open>m.next_to(t, direction, buff)\<close> shifts \<open>m\<close> by \<open>next_to_shift (box of m) (box of t) direction buff\<close>.
\<close>

definition move_to_shift :: "box \<Rightarrow> box \<Rightarrow> vec \<Rightarrow> vec" where
  "move_to_shift self target aligned_edge =
     vsub (get_critical_point target aligned_edge) (get_critical_point self aligned_edge)"

definition next_to_shift :: "box \<Rightarrow> box \<Rightarrow> vec \<Rightarrow> real \<Rightarrow> vec" where
  "next_to_shift self target direction buff =
     vadd (vsub (get_critical_point target direction)
                (get_critical_point self (vneg direction)))
          (smul buff direction)"

section \<open>Elements of a collection\<close>

text \<open>
  A \<open>Text\<close> is the string it shows and its box. An \<open>MElement\<close> is a group of its square and
  its value text; an \<open>MIndexedElement\<close> may also own an index caption (the attribute
  \<open>index\<close>, absent until \<open>add_index\<close> sets it). Each element object has an identity \<open>eid\<close>:
  the visual group of the collection holds references to elements, not copies. Colours,
  strokes, fonts and the highlight overlay are left out.
\<close>

record mtext =
  str :: string
  tbox :: box

record melement =
  eid :: nat
  square :: box
  value_text :: mtext
  index :: "mtext option"

definition Text :: "(string \<Rightarrow> real \<times> real) \<Rightarrow> string \<Rightarrow> mtext" where
  "Text metric s = \<lparr>str = s, tbox = box_at ORIGIN (fst (metric s)) (snd (metric s))\<rparr>"

definition Rectangle :: "real \<Rightarrow> real \<Rightarrow> box" where
  "Rectangle w h = box_at ORIGIN w h"

definition text_shift :: "vec \<Rightarrow> mtext \<Rightarrow> mtext" where
  "text_shift v t = t\<lparr>tbox := box_shift v (tbox t)\<rparr>"

definition text_move_to :: "mtext \<Rightarrow> box \<Rightarrow> mtext" where
  "text_move_to t target = text_shift (move_to_shift (tbox t) target ORIGIN) t"

definition elem_shift :: "vec \<Rightarrow> melement \<Rightarrow> melement" where
  "elem_shift v e =
     e\<lparr>square := box_shift v (square e),
       value_text := text_shift v (value_text e),
       index := map_option (text_shift v) (index e)\<rparr>"

text \<open>The box of \<open>VGroup(e.square, e.value)\<close> and the box of the whole element.\<close>

definition body_box :: "melement \<Rightarrow> box" where
  "body_box e = box_union (square e) (tbox (value_text e))"

definition elem_box :: "melement \<Rightarrow> box" where
  "elem_box e =
     (case index e of
        None \<Rightarrow> body_box e
      | Some c \<Rightarrow> box_union (body_box e) (tbox c))"

text \<open>\<open>MElement.__init__\<close>: the value text is centred on the square.\<close>

definition MElement :: "nat \<Rightarrow> box \<Rightarrow> mtext \<Rightarrow> melement" where
  "MElement i sq v =
     \<lparr>eid = i, square = sq, value_text = text_move_to v sq, index = None\<rparr>"

text \<open>\<open>MIndexedElement.add_index\<close>: the caption is put next to the square.\<close>

definition add_index :: "melement \<Rightarrow> mtext \<Rightarrow> vec \<Rightarrow> real \<Rightarrow> melement" where
  "add_index e c direction buff =
     e\<lparr>index := Some (text_shift (next_to_shift (tbox c) (square e) direction buff) c)\<rparr>"

section \<open>MCollection\<close>

text \<open>
  The collection is a visual group (\<open>submobjects\<close>, manipulated by \<open>self += m\<close> and
  \<open>self -= m\<close>) and a Python list \<open>elements\<close>. The children of the group are references:
  the hidden template element(s), the elements, and the container of a stack.
\<close>

datatype mobject = HiddenElem nat | Elem nat | Container

text \<open>
  \<open>Mobject.add\<close> moves a child that is already there to the end of the list and never
  duplicates it; \<open>Mobject.remove\<close> does nothing when the child is absent.
\<close>

definition group_add :: "mobject list \<Rightarrow> mobject \<Rightarrow> mobject list" where
  "group_add g m = filter (\<lambda>x. x \<noteq> m) g @ [m]"

definition group_remove :: "mobject list \<Rightarrow> mobject \<Rightarrow> mobject list" where
  "group_remove g m = remove1 m g"

text \<open>Of the style dictionaries only the size of a new square matters to the layout.\<close>

record cstyle =
  square_width :: real
  square_height :: real

record mcollection =
  elements :: "melement list"
  submobjects :: "mobject list"
  hidden_element :: melement
  style :: cstyle
  dir :: vec
  margin :: real
  next_id :: nat

definition update_style :: "'a mcollection_scheme \<Rightarrow> 'a mcollection_scheme" where
  "update_style s =
     s\<lparr>style := \<lparr>square_width = width (square (hidden_element s)),
                  square_height = width (square (hidden_element s))\<rparr>\<rparr>"

definition append_helper :: "'a mcollection_scheme \<Rightarrow> melement \<Rightarrow> 'a mcollection_scheme" where
  "append_helper s new_element =
     (let placed =
            (if length (elements s @ [new_element]) > 1
             then elem_shift (next_to_shift (elem_box new_element)
                                (square (last (elements s))) (dir s) (margin s)) new_element
             else elem_shift (move_to_shift (elem_box new_element)
                                (square (hidden_element s)) ORIGIN) new_element)
      in s\<lparr>elements := elements s @ [placed],
            submobjects := group_add (submobjects s) (Elem (eid placed))\<rparr>)"

definition new_elem :: "env \<Rightarrow> 'a mcollection_scheme \<Rightarrow> pyval \<Rightarrow> melement" where
  "new_elem E s v =
     MElement (next_id s)
       (Rectangle (square_width (style s)) (square_height (style s)))
       (Text (value_size E) (py_str E v))"

definition MCollection_append :: "env \<Rightarrow> 'a mcollection_scheme \<Rightarrow> pyval \<Rightarrow> 'a mcollection_scheme" where
  "MCollection_append E s v =
     (let s1 = update_style s;
          e = new_elem E s1 v
      in append_helper (s1\<lparr>next_id := Suc (next_id s1)\<rparr>) e)"

text \<open>
  \<open>_logic_pop\<close> at a list position, then the shift of \<open>VGroup(*self.elements[index:])\<close>: the
  slice is taken with the caller's \<open>index\<close> as it was given, after the removal.
\<close>

definition logic_pop :: "'a mcollection_scheme \<Rightarrow> nat \<Rightarrow> 'a mcollection_scheme" where
  "logic_pop s k =
     s\<lparr>submobjects := group_remove (submobjects s) (Elem (eid (elements s ! k))),
       elements := take k (elements s) @ drop (Suc k) (elements s)\<rparr>"

definition shift_from :: "nat \<Rightarrow> vec \<Rightarrow> melement list \<Rightarrow> melement list" where
  "shift_from k v es = take k es @ map (elem_shift v) (drop k es)"

definition MCollection_pop :: "'a mcollection_scheme \<Rightarrow> int \<Rightarrow> 'a mcollection_scheme outcome" where
  "MCollection_pop s i =
     (if elements s = [] then Returned s
      else case norm_index (length (elements s)) i of
             None \<Rightarrow> Raised IndexError s
           | Some k \<Rightarrow>
               (let popped_element = elements s ! k;
                    s1 = logic_pop s k
                in Returned (s1\<lparr>elements :=
                     shift_from (slice_start (length (elements s1)) i)
                       (vneg (smul (width (square popped_element)) (dir s1)))
                       (elements s1)\<rparr>)))"

text \<open>\<open>__getitem__\<close>: the guard of the source, then Python's own list indexing.\<close>

definition getitem :: "'a mcollection_scheme \<Rightarrow> int \<Rightarrow> error + melement" where
  "getitem s key =
     (if key \<ge> int (length (elements s)) then Inl (Exception ''Index out of bounds!'')
      else case norm_index (length (elements s)) key of
             None \<Rightarrow> Inl IndexError
           | Some k \<Rightarrow> Inr (elements s ! k))"

text \<open>
  \<open>self.move_to(ORIGIN)\<close> on the group: every child is shifted by the vector that brings
  the centre of the box of the whole group to the origin.
\<close>

definition collection_shift :: "vec \<Rightarrow> 'a mcollection_scheme \<Rightarrow> 'a mcollection_scheme" where
  "collection_shift v s =
     s\<lparr>elements := map (elem_shift v) (elements s),
       hidden_element := elem_shift v (hidden_element s)\<rparr>"

definition collection_box :: "'a mcollection_scheme \<Rightarrow> box" where
  "collection_box s = foldl box_union (elem_box (hidden_element s)) (map elem_box (elements s))"

section \<open>MArray\<close>

record marray = mcollection +
  index_enabled :: bool
  index_dir :: "vec option"

text \<open>
  \<open>MArray._update_style\<close> also reads \<open>self._hidden_element.index\<close> when indexing is enabled
  (for the font size, which the model leaves out): an absent attribute raises.
\<close>

definition MArray_update_style :: "marray \<Rightarrow> marray outcome" where
  "MArray_update_style s =
     (let s1 = update_style s
      in if index_enabled s1 \<and> index (hidden_element s1) = None
         then Raised AttributeError s1 else Returned s1)"

definition get_index_buff :: "marray \<Rightarrow> mtext \<Rightarrow> real" where
  "get_index_buff s hidden_index =
     (let square_center = get_center (square (hidden_element s));
          index_center = get_center (tbox hidden_index);
          offset = width (square (hidden_element s)) / 2;
          direction_offset =
            (if dir s = UP \<or> dir s = DOWN
             then (offset + width (tbox hidden_index) / 2, 0, 0)
             else (0, offset + height (tbox hidden_index) / 2, 0))
      in if index_dir s = Some UP \<or> index_dir s = Some RIGHT
         then ycoord (vsub (vsub index_center square_center) direction_offset)
         else ycoord (vsub (vsub square_center index_center) direction_offset))"

definition MArray_append :: "env \<Rightarrow> marray \<Rightarrow> pyval \<Rightarrow> marray outcome" where
  "MArray_append E s v =
     (case MArray_update_style s of
        Raised e s' \<Rightarrow> Raised e s'
      | Returned s1 \<Rightarrow>
          (let e = new_elem E s1 v;
               s2 = append_helper (s1\<lparr>next_id := Suc (next_id s1)\<rparr>) e
           in if index_enabled s2
              then (case index (hidden_element s2) of
                      None \<Rightarrow> Raised AttributeError s2
                    | Some hidden_index \<Rightarrow>
                        (case index_dir s2 of
                           None \<Rightarrow> Raised TypeError s2
                         | Some d \<Rightarrow>
                             Returned (s2\<lparr>elements :=
                               butlast (elements s2) @
                                 [add_index (last (elements s2))
                                    (Text (index_size E)
                                       (str_int (int (length (elements s2)) - 1)))
                                    d (get_index_buff s2 hidden_index)]\<rparr>)))
              else Returned s2))"

text \<open>
  \<open>_set_index_from(start, end, popped_index)\<close>: the loop over \<open>range(start, end + 1)\<close>. Each
  element takes a copy of the caption before it, moved to where its own caption is.
\<close>

fun set_index_loop :: "int list \<Rightarrow> mtext \<Rightarrow> melement list \<Rightarrow> melement list outcome" where
  "set_index_loop [] old_index es = Returned es"
| "set_index_loop (i # rest) old_index es =
     (case norm_index (length es) i of
        None \<Rightarrow> Raised IndexError es
      | Some k \<Rightarrow>
          (case index (es ! k) of
             None \<Rightarrow> Raised AttributeError es
           | Some curr_index \<Rightarrow>
               set_index_loop rest curr_index
                 (es[k := (es ! k)\<lparr>index :=
                            Some (text_move_to old_index (tbox curr_index))\<rparr>])))"

definition set_index_from :: "marray \<Rightarrow> int \<Rightarrow> int \<Rightarrow> mtext \<Rightarrow> marray outcome" where
  "set_index_from s start end popped_index =
     (case set_index_loop [start..end] popped_index (elements s) of
        Returned es \<Rightarrow> Returned (s\<lparr>elements := es\<rparr>)
      | Raised e es \<Rightarrow> Raised e (s\<lparr>elements := es\<rparr>))"

definition MArray_pop :: "marray \<Rightarrow> int \<Rightarrow> marray outcome" where
  "MArray_pop s i =
     (if elements s = [] then Returned s
      else case norm_index (length (elements s)) i of
             None \<Rightarrow> Raised IndexError s
           | Some k \<Rightarrow>
               (let popped_element = elements s ! k
                in case MCollection_pop s i of
                     Raised e s' \<Rightarrow> Raised e s'
                   | Returned s1 \<Rightarrow>
                       if index_enabled s1
                       then (case index popped_element of
                               None \<Rightarrow> Raised AttributeError s1
                             | Some popped_index \<Rightarrow>
                                 set_index_from s1 i (int (length (elements s1)) - 1)
                                   popped_index)
                       else Returned s1))"

definition add_indexes :: "env \<Rightarrow> marray \<Rightarrow> vec \<Rightarrow> real \<Rightarrow> marray outcome" where
  "add_indexes E s direction buff =
     (if index_enabled s then Returned s
      else if vabs (dir s) = vabs direction
      then Raised (Exception ''The direction given is parallel to array growth direction!'') s
      else Returned
        (s\<lparr>index_enabled := True,
           index_dir := Some direction,
           hidden_element :=
             add_index (hidden_element s) (Text (index_size E) ''0'') direction buff,
           elements :=
             map (\<lambda>(i, e). add_index e (Text (index_size E) (str_int (int i))) direction buff)
               (enumerate 0 (elements s))\<rparr>))"

fun MArray_append_all :: "env \<Rightarrow> marray \<Rightarrow> pyval list \<Rightarrow> marray outcome" where
  "MArray_append_all E s [] = Returned s"
| "MArray_append_all E s (v # vs) =
     (case MArray_append E s v of
        Raised e s' \<Rightarrow> Raised e s'
      | Returned s' \<Rightarrow> MArray_append_all E s' vs)"

text \<open>
  \<open>MArray(arr, direction, style)\<close>: the constructor of \<open>MCollection\<close> with margin 0 (its
  calls of \<open>append\<close> are those of \<open>MArray\<close>), then a second hidden element on the square and
  value of the first.
\<close>

definition MArray_init :: "env \<Rightarrow> pyval list \<Rightarrow> vec \<Rightarrow> cstyle \<Rightarrow> marray outcome" where
  "MArray_init E arr direction st =
     (let s0 = \<lparr>elements = [], submobjects = [HiddenElem 0],
                hidden_element =
                  MElement 0 (Rectangle (square_width st) (square_height st))
                    (Text (value_size E) ''0''),
                style = st, dir = direction, margin = 0, next_id = 1,
                index_enabled = False, index_dir = None\<rparr>
      in case MArray_append_all E s0 arr of
           Raised e s' \<Rightarrow> Raised e s'
         | Returned s1 \<Rightarrow>
             (let s2 = collection_shift (vsub ORIGIN (get_center (collection_box s1))) s1
              in Returned
                   (s2\<lparr>hidden_element :=
                         MElement (next_id s2) (square (hidden_element s2))
                           (value_text (hidden_element s2)),
                       submobjects := group_add (submobjects s2) (HiddenElem (next_id s2)),
                       next_id := Suc (next_id s2)\<rparr>)))"

definition DEFAULT_style :: cstyle where
  "DEFAULT_style = \<lparr>square_width = 1, square_height = 1\<rparr>"

section \<open>MStack\<close>

record mstack = mcollection +
  bottom_line :: box
  left_line :: box
  right_line :: box
  spawnpoint :: "vec option"

definition Line :: "vec \<Rightarrow> vec \<Rightarrow> box" where
  "Line a b = \<lparr>lo = vmin a b, hi = vmax a b\<rparr>"

definition get_spawn_point :: "mstack \<Rightarrow> vec" where
  "get_spawn_point s =
     vadd (vadd (get_center (bottom_line s)) (smul (height (right_line s)) UP))
          (smul (width (square (hidden_element s))) UP)"

definition MStack_append :: "env \<Rightarrow> mstack \<Rightarrow> pyval \<Rightarrow> mstack" where
  "MStack_append E s v = MCollection_append E s v"

definition MStack_pop :: "mstack \<Rightarrow> mstack outcome" where
  "MStack_pop s = MCollection_pop s (int (length (elements s)) - 1)"

definition stack_box :: "mstack \<Rightarrow> box" where
  "stack_box s =
     box_union (collection_box s)
       (box_union (left_line s) (box_union (bottom_line s) (right_line s)))"

definition stack_shift :: "vec \<Rightarrow> mstack \<Rightarrow> mstack" where
  "stack_shift v s =
     (collection_shift v s)\<lparr>bottom_line := box_shift v (bottom_line s),
        left_line := box_shift v (left_line s),
        right_line := box_shift v (right_line s)\<rparr>"

text \<open>
  \<open>MStack(arr, buff, style)\<close>. The updater that recomputes \<open>spawnpoint\<close> and \<open>margin\<close> runs
  when the scene updates the mobject, not in the constructor.
\<close>

definition MStack_init :: "env \<Rightarrow> pyval list \<Rightarrow> real \<Rightarrow> cstyle \<Rightarrow> mstack" where
  "MStack_init E arr buff st =
     (let s0 = \<lparr>elements = [], submobjects = [HiddenElem 0],
                hidden_element =
                  MElement 0 (Rectangle (square_width st) (square_height st))
                    (Text (value_size E) ''0''),
                style = st, dir = UP, margin = buff, next_id = 1,
                bottom_line = Line ORIGIN ORIGIN, left_line = Line ORIGIN ORIGIN,
                right_line = Line ORIGIN ORIGIN, spawnpoint = None\<rparr>;
          s1 = foldl (MStack_append E) s0 arr;
          s2 = collection_shift (vsub ORIGIN (get_center (collection_box s1))) s1;
          elem = (if elements s2 \<noteq> [] then square (elements s2 ! 0)
                  else square (hidden_element s2));
          container_height =
            (if arr \<noteq> [] then (real (length arr) + 3) * height elem
             else height (square (hidden_element s2)) * 7);
          bl0 = Line ORIGIN (width elem + 2 * buff, 0, 0);
          bl = box_shift (next_to_shift bl0 elem DOWN buff) bl0;
          ll0 = Line (0, container_height, 0) ORIGIN;
          ll = box_shift (next_to_shift ll0 bl UL 0) ll0;
          rl = box_shift (next_to_shift ll bl UR 0) ll;
          s3 = s2\<lparr>bottom_line := bl, left_line := ll, right_line := rl,
                  submobjects := group_add (submobjects s2) Container\<rparr>
      in stack_shift (vsub ORIGIN (get_center (stack_box s3))) s3)"

section \<open>Coordinates in float64\<close>

text \<open>
  The points of a mobject are numpy arrays of IEEE 754 binary64 numbers. A sum or a
  difference of two of them is the exact result rounded to the nearest number with 53
  significant bits, ties to the even one. \<open>fl64\<close> is that rounding on the reals: the
  exponent of \<open>x\<close> is found by halving or doubling, at most as often as binary64 has
  exponents (below the smallest normal number the spacing stays that of the subnormal
  numbers); overflow to infinity, far from the coordinates of a scene, is left out.
\<close>

fun halvings :: "nat \<Rightarrow> real \<Rightarrow> int" where
  "halvings 0 x = 0"
| "halvings (Suc n) x = (if 2 \<le> x then 1 + halvings n (x / 2) else 0)"

fun doublings :: "nat \<Rightarrow> real \<Rightarrow> int" where
  "doublings 0 x = 0"
| "doublings (Suc n) x = (if x < 1 then 1 + doublings n (2 * x) else 0)"

definition exponent64 :: "real \<Rightarrow> int" where
  "exponent64 x = (if 1 \<le> \<bar>x\<bar> then halvings 1023 \<bar>x\<bar> else - doublings 1022 \<bar>x\<bar>)"

definition pow2 :: "int \<Rightarrow> real" where
  "pow2 e = (if 0 \<le> e then 2 ^ nat e else 1 / 2 ^ nat (- e))"

definition round_half_even :: "real \<Rightarrow> int" where
  "round_half_even q =
     (let f = \<lfloor>q\<rfloor>; r = q - of_int f
      in if r < 1 / 2 then f else if 1 / 2 < r then f + 1 else if even f then f else f + 1)"

definition fl64 :: "real \<Rightarrow> real" where
  "fl64 x =
     (if x = 0 then 0
      else of_int (round_half_even (x / pow2 (exponent64 x - 52))) * pow2 (exponent64 x - 52))"

text \<open>numpy's \<open>a + b\<close> and \<open>a - b\<close> on points.\<close>

fun vadd64 :: "vec \<Rightarrow> vec \<Rightarrow> vec" where
  "vadd64 (a, b, c) (d, e, f) = (fl64 (a + d), fl64 (b + e), fl64 (c + f))"

fun vsub64 :: "vec \<Rightarrow> vec \<Rightarrow> vec" where
  "vsub64 (a, b, c) (d, e, f) = (fl64 (a - d), fl64 (b - e), fl64 (c - f))"

text \<open>
  \<open>Mobject.shift\<close> adds the vector to every point (\<open>mob.points += total_vector\<close>); rounding
  is monotone, so the box of the shifted points is the shifted box.
\<close>

definition box_shift64 :: "vec \<Rightarrow> box \<Rightarrow> box" where
  "box_shift64 v b = \<lparr>lo = vadd64 (lo b) v, hi = vadd64 (hi b) v\<rparr>"

definition text_shift64 :: "vec \<Rightarrow> mtext \<Rightarrow> mtext" where
  "text_shift64 v t = t\<lparr>tbox := box_shift64 v (tbox t)\<rparr>"

definition elem_shift64 :: "vec \<Rightarrow> melement \<Rightarrow> melement" where
  "elem_shift64 v e =
     e\<lparr>square := box_shift64 v (square e),
       value_text := text_shift64 v (value_text e),
       index := map_option (text_shift64 v) (index e)\<rparr>"

definition body_shift64 :: "vec \<Rightarrow> melement \<Rightarrow> melement" where
  "body_shift64 v e =
     e\<lparr>square := box_shift64 v (square e), value_text := text_shift64 v (value_text e)\<rparr>"

text \<open>
  \<open>get_critical_point\<close>: per coordinate the minimum, the maximum or
  \<open>(np.min(values) + np.max(values)) / 2\<close>; \<open>move_to\<close> shifts by \<open>target - point_to_align\<close>.
\<close>

definition extremum64 :: "real \<Rightarrow> real \<Rightarrow> real \<Rightarrow> real" where
  "extremum64 l h k = (if k < 0 then l else if k = 0 then fl64 (fl64 (l + h) / 2) else h)"

fun critical64 :: "vec \<Rightarrow> vec \<Rightarrow> vec \<Rightarrow> vec" where
  "critical64 (lx, ly, lz) (hx, hy, hz) (dx, dy, dz) =
     (extremum64 lx hx dx, extremum64 ly hy dy, extremum64 lz hz dz)"

definition get_critical_point64 :: "box \<Rightarrow> vec \<Rightarrow> vec" where
  "get_critical_point64 b d = critical64 (lo b) (hi b) d"

definition move_to_shift64 :: "box \<Rightarrow> box \<Rightarrow> vec \<Rightarrow> vec" where
  "move_to_shift64 self target aligned_edge =
     vsub64 (get_critical_point64 target aligned_edge) (get_critical_point64 self aligned_edge)"

section \<open>Swapping two elements\<close>

text \<open>
  \<open>_visual_swap\<close>: \<open>temp\<close> is a copy of element \<open>i\<close> taken before it moves; element \<open>j\<close> is read
  again after element \<open>i\<close> has moved (they are the same object when the positions agree).
  Whether a second swap brings every point back depends on the rounding of these shifts,
  so they are computed in float64.
\<close>

definition MCollection_visual_swap :: "melement list \<Rightarrow> nat \<Rightarrow> nat \<Rightarrow> melement list" where
  "MCollection_visual_swap es i j =
     (let temp = es ! i;
          es1 = es[i := elem_shift64 (move_to_shift64 (elem_box (es ! i)) (elem_box (es ! j)) DOWN)
                          (es ! i)]
      in es1[j := elem_shift64 (move_to_shift64 (elem_box (es1 ! j)) (elem_box temp) DOWN)
                    (es1 ! j)])"

text \<open>\<open>xs[i], xs[j] = xs[j], xs[i]\<close>\<close>

definition list_swap :: "'a list \<Rightarrow> nat \<Rightarrow> nat \<Rightarrow> 'a list" where
  "list_swap xs i j = xs[i := xs ! j, j := xs ! i]"



text \<open>\<open>MArray._visual_swap\<close> moves the square and the value only, not the caption.\<close>

definition MArray_visual_swap :: "melement list \<Rightarrow> nat \<Rightarrow> nat \<Rightarrow> melement list" where
  "MArray_visual_swap es i j =
     (let temp = body_box (es ! i);
          es1 = es[i := body_shift64 (move_to_shift64 (body_box (es ! i)) (body_box (es ! j)) DOWN)
                          (es ! i)]
      in es1[j := body_shift64 (move_to_shift64 (body_box (es1 ! j)) temp DOWN) (es1 ! j)])"

definition MArray_logic_swap :: "marray \<Rightarrow> nat \<Rightarrow> nat \<Rightarrow> marray outcome" where
  "MArray_logic_swap s i j =
     (let es = elements s;
          g1 = group_remove (group_remove (submobjects s) (Elem (eid (es ! i))))
                 (Elem (eid (es ! j)));
          es1 = list_swap es i j;
          s1 = s\<lparr>elements := es1, submobjects := g1\<rparr>
      in if index_enabled s
         then (case (index (es1 ! i), index (es1 ! j)) of
                 (Some index_i, Some index_j) \<Rightarrow>
                   (let es2 = es1[i := (es1 ! i)\<lparr>index := Some index_j\<rparr>];
                        es3 = es2[j := (es2 ! j)\<lparr>index := Some index_i\<rparr>]
                    in Returned (s\<lparr>elements := es3,
                         submobjects := group_add (group_add g1 (Elem (eid (es3 ! i))))
                                          (Elem (eid (es3 ! j)))\<rparr>))
               | _ \<Rightarrow> Raised AttributeError s1)
         else Returned (s\<lparr>elements := es1,
                submobjects := group_add (group_add g1 (Elem (eid (es1 ! i))))
                                 (Elem (eid (es1 ! j)))\<rparr>))"

definition MArray_swap :: "marray \<Rightarrow> int \<Rightarrow> int \<Rightarrow> marray outcome" where
  "MArray_swap s i j =
     (case norm_index (length (elements s)) i of
        None \<Rightarrow> Raised IndexError s
      | Some a \<Rightarrow>
          (case norm_index (length (elements s)) j of
             None \<Rightarrow> Raised IndexError s
           | Some b \<Rightarrow>
               MArray_logic_swap (s\<lparr>elements := MArray_visual_swap (elements s) a b\<rparr>) a b))"

section \<open>MGraph\<close>

text \<open>
  A \<open>Line\<close> is a mutable object: \<open>put_start_and_end_on\<close> and \<open>add_tip\<close> change it in
  place, and \<open>add_edge\<close> hands one \<open>Line\<close> to two edges. Lines therefore live in a heap
  (\<open>lines\<close>), and an edge holds the address of its line. The arrowhead is a tip of the line.
\<close>

record mline =
  line_start :: vec
  line_end :: vec
  has_tip :: bool

record glabel =
  gtext :: string
  gpos :: vec

record node =
  nid :: nat
  circle_center :: vec
  circle_radius :: real
  node_label :: glabel

record edge =
  edge_id :: nat
  line :: nat
  label :: "glabel option"
  label_distance :: "real option"
  highlighting :: mline

datatype vkey = NodeKey string | EdgeKey "string \<times> string"

datatype gobject = NodeObj nat | EdgeObj nat

record gstyle =
  node_radius :: real

record mgraph =
  nodes :: "string \<rightharpoonup> node"
  edges :: "string \<times> string \<rightharpoonup> edge"
  lines :: "nat \<rightharpoonup> mline"
  submob_dict :: "vkey \<rightharpoonup> gobject"
  graph_submobjects :: "gobject list"
  graph_style :: gstyle
  graph_next_id :: nat

definition GraphStyle_DEFAULT :: gstyle where
  "GraphStyle_DEFAULT = \<lparr>node_radius = 33 / 100\<rparr>"

text \<open>\<open>MGraph({}, style=st)\<close>: no node, no edge.\<close>

definition MGraph_empty :: "gstyle \<Rightarrow> mgraph" where
  "MGraph_empty st =
     \<lparr>nodes = Map.empty, edges = Map.empty, lines = Map.empty, submob_dict = Map.empty,
      graph_submobjects = [], graph_style = st, graph_next_id = 0\<rparr>"

text \<open>\<open>VDict.add([(key, value)])\<close> and \<open>VDict.remove(key)\<close> of the renderer.\<close>

definition vdict_add :: "mgraph \<Rightarrow> vkey \<Rightarrow> gobject \<Rightarrow> mgraph" where
  "vdict_add g key ob =
     g\<lparr>submob_dict := (submob_dict g)(key \<mapsto> ob),
       graph_submobjects := filter (\<lambda>x. x \<noteq> ob) (graph_submobjects g) @ [ob]\<rparr>"

definition vdict_remove :: "mgraph \<Rightarrow> vkey \<Rightarrow> mgraph outcome" where
  "vdict_remove g key =
     (case submob_dict g key of
        None \<Rightarrow> Raised KeyError g
      | Some ob \<Rightarrow>
          Returned (g\<lparr>graph_submobjects := remove1 ob (graph_submobjects g),
                      submob_dict := (submob_dict g)(key := None)\<rparr>))"

fun norm3 :: "vec \<Rightarrow> real" where
  "norm3 (a, b, c) = sqrt (a * a + b * b + c * c)"

fun vdiv :: "vec \<Rightarrow> real \<Rightarrow> vec" where
  "vdiv (a, b, c) k = (a / k, b / k, c / k)"

definition normalize :: "vec \<Rightarrow> vec" where
  "normalize v = (if norm3 v > 0 then vdiv v (norm3 v) else (0, 0, 0))"

definition get_unit_vector :: "vec \<Rightarrow> vec \<Rightarrow> vec" where
  "get_unit_vector a b = normalize (vsub b a)"

definition StraightEdge_get_line_start_end :: "vec \<Rightarrow> vec \<Rightarrow> real \<Rightarrow> real \<Rightarrow> vec \<times> vec" where
  "StraightEdge_get_line_start_end node1_center node2_center node1_radius node2_radius =
     (let direction = get_unit_vector node1_center node2_center;
          start = vadd node1_center (smul node1_radius direction);
          end = vsub node2_center (smul node2_radius direction)
      in if start = end then (LEFT, RIGHT) else (start, end))"

fun orthogonal :: "vec \<Rightarrow> vec" where
  "orthogonal (a, b, c) = (b, - a, 0)"

definition StraightEdge_get_label_position :: "mline \<Rightarrow> real \<Rightarrow> vec" where
  "StraightEdge_get_label_position line0 label_dist =
     (let direction = get_unit_vector (line_start line0) (line_end line0);
          mean = vadd (line_start line0)
                   (vdiv (smul (norm3 (vsub (line_end line0) (line_start line0))) direction) 2);
          orthogonal_dir = orthogonal direction
      in vadd mean (smul label_dist orthogonal_dir))"

text \<open>
  \<open>StraightEdge(line, c1, c2, r1, r2, arrow)\<close> on the line at address \<open>a\<close>: the tip is
  added, the line is put on the computed end points in place, and the highlight overlay
  is a copy of the line as it is then.
\<close>

definition StraightEdge ::
  "(nat \<rightharpoonup> mline) \<Rightarrow> nat \<Rightarrow> nat \<Rightarrow> vec \<Rightarrow> vec \<Rightarrow> real \<Rightarrow> real \<Rightarrow> bool \<Rightarrow> (nat \<rightharpoonup> mline) \<times> edge" where
  "StraightEdge heap i a node1_center node2_center node1_radius node2_radius arrow =
     (let line0 = the (heap a);
          line1 = (if arrow then line0\<lparr>has_tip := True\<rparr> else line0);
          se = StraightEdge_get_line_start_end node1_center node2_center
                 node1_radius node2_radius;
          line2 = line1\<lparr>line_start := fst se, line_end := snd se\<rparr>
      in (heap(a \<mapsto> line2),
          \<lparr>edge_id = i, line = a, label = None, label_distance = None, highlighting = line2\<rparr>))"

definition weighted :: "(nat \<rightharpoonup> mline) \<Rightarrow> edge \<Rightarrow> string \<Rightarrow> real \<Rightarrow> edge" where
  "weighted heap e t label_dist =
     e\<lparr>label := Some \<lparr>gtext = t,
                       gpos = StraightEdge_get_label_position (the (heap (line e))) label_dist\<rparr>,
       label_distance := Some label_dist\<rparr>"

definition is_weighted :: "edge \<Rightarrow> bool" where
  "is_weighted e = (label e \<noteq> None)"

definition has_arrow :: "mgraph \<Rightarrow> edge \<Rightarrow> bool" where
  "has_arrow g e = (case lines g (line e) of None \<Rightarrow> False | Some line0 \<Rightarrow> has_tip line0)"

definition add_node :: "mgraph \<Rightarrow> string \<Rightarrow> vec \<Rightarrow> mgraph outcome" where
  "add_node g name position =
     (let new_node = \<lparr>nid = graph_next_id g, circle_center = position,
                       circle_radius = node_radius (graph_style g),
                       node_label = \<lparr>gtext = name, gpos = position\<rparr>\<rparr>;
          g1 = g\<lparr>nodes := (nodes g)(name \<mapsto> new_node),
                 graph_next_id := Suc (graph_next_id g)\<rparr>
      in Returned (vdict_add g1 (NodeKey name) (NodeObj (nid new_node))))"

definition add_edge :: "env \<Rightarrow> mgraph \<Rightarrow> string \<Rightarrow> string \<Rightarrow> pyval \<Rightarrow> real \<Rightarrow> mgraph outcome" where
  "add_edge E g node1_name node2_name weight label_dist =
     (case nodes g node1_name of
        None \<Rightarrow> Raised KeyError g
      | Some node1 \<Rightarrow>
     (case nodes g node2_name of
        None \<Rightarrow> Raised KeyError g
      | Some node2 \<Rightarrow>
          (let edge_name = (node1_name, node2_name);
               edge_name_rev = (node2_name, node1_name);
               reverse_exists = (edges g edge_name_rev \<noteq> None);
               a = graph_next_id g;
               heap1 = (lines g)(a \<mapsto> \<lparr>line_start = LEFT, line_end = RIGHT, has_tip = False\<rparr>);
               (heap2, e0) = StraightEdge heap1 (a + 1) a
                   (circle_center node1) (circle_center node2)
                   (circle_radius node1) (circle_radius node2) (\<not> reverse_exists);
               new_edge = (if truthy weight
                           then weighted heap2 e0 (py_str E weight) label_dist else e0)
           in if edges g edge_name_rev \<noteq> None
              then
                (let (heap3, new_edge_rev_node) = StraightEdge heap2 (a + 2) a
                        (circle_center node2) (circle_center node1)
                        (circle_radius node2) (circle_radius node1) False;
                     new_edge' = (if truthy weight
                                  then weighted heap3 new_edge
                                         (gtext (the (label new_edge))) label_dist
                                  else new_edge);
                     g1 = g\<lparr>lines := heap3, graph_next_id := a + 3\<rparr>
                 in case vdict_remove g1 (EdgeKey edge_name_rev) of
                      Raised err g2 \<Rightarrow> Raised err g2
                    | Returned g2 \<Rightarrow>
                        (let g3 = vdict_add (g2\<lparr>edges := (edges g2)(edge_name_rev \<mapsto> new_edge_rev_node)\<rparr>)
                                    (EdgeKey edge_name_rev) (EdgeObj (edge_id new_edge_rev_node))
                         in Returned
                              (vdict_add (g3\<lparr>edges := (edges g3)(edge_name \<mapsto> new_edge')\<rparr>)
                                 (EdgeKey edge_name) (EdgeObj (edge_id new_edge')))))
              else
                (let g1 = g\<lparr>lines := heap2, graph_next_id := a + 3\<rparr>
                 in Returned
                      (vdict_add (g1\<lparr>edges := (edges g1)(edge_name \<mapsto> new_edge)\<rparr>)
                         (EdgeKey edge_name) (EdgeObj (edge_id new_edge)))))))"

text \<open>One call after another, as a script does; an exception stops the script.\<close>

fun and_then :: "'a outcome \<Rightarrow> ('a \<Rightarrow> 'a outcome) \<Rightarrow> 'a outcome" where
  "and_then (Returned s) f = f s"
| "and_then (Raised e s) f = Raised e s"

text \<open>
  The \<open>VDict\<close> of a graph built by the constructor, \<open>add_node\<close> and \<open>add_edge\<close> knows every
  edge of the edge map, and every node is stored under the name its label shows, with an
  identity older than the next one.
\<close>

definition graph_ok :: "mgraph \<Rightarrow> bool" where
  "graph_ok g \<longleftrightarrow> (\<forall>k. edges g k \<noteq> None \<longrightarrow> submob_dict g (EdgeKey k) \<noteq> None)"

text \<open>What a script reads off an edge: the end points and the tip of its line.\<close>

definition edge_start_end :: "mgraph \<Rightarrow> string \<times> string \<Rightarrow> (vec \<times> vec) option" where
  "edge_start_end g k =
     (case edges g k of
        None \<Rightarrow> None
      | Some e \<Rightarrow>
          (case lines g (line e) of
             None \<Rightarrow> None
           | Some l \<Rightarrow> Some (line_start l, line_end l)))"

definition edge_has_tip :: "mgraph \<Rightarrow> string \<times> string \<Rightarrow> bool option" where
  "edge_has_tip g k = map_option (has_arrow g) (edges g k)"

definition nodes_ok :: "mgraph \<Rightarrow> bool" where
  "nodes_ok g \<longleftrightarrow>
     (\<forall>k n. nodes g k = Some n \<longrightarrow> nid n < graph_next_id g \<and> gtext (node_label n) = k)"

section \<open>Scripts and invariants\<close>

text \<open>
  The element visuals attached to the group are the children that are elements (not the
  hidden templates, not the container). A script is a list of calls; a call that raises
  leaves the object in the state of the exception, and the script goes on from there, as
  after \<open>try: ... except: pass\<close>.
\<close>

fun elem_ids :: "mobject list \<Rightarrow> nat list" where
  "elem_ids [] = []"
| "elem_ids (Elem i # g) = i # elem_ids g"
| "elem_ids (m # g) = elem_ids g"

datatype array_op = Append pyval | Pop int | AddIndexes vec real

fun MArray_do :: "env \<Rightarrow> marray \<Rightarrow> array_op \<Rightarrow> marray outcome" where
  "MArray_do E s (Append v) = MArray_append E s v"
| "MArray_do E s (Pop i) = MArray_pop s i"
| "MArray_do E s (AddIndexes d b) = add_indexes E s d b"

fun MArray_run :: "env \<Rightarrow> marray \<Rightarrow> array_op list \<Rightarrow> marray" where
  "MArray_run E s [] = s"
| "MArray_run E s (x # xs) = MArray_run E (state_of (MArray_do E s x)) xs"

datatype stack_op = Push pyval | PopTop

fun MStack_do :: "env \<Rightarrow> mstack \<Rightarrow> stack_op \<Rightarrow> mstack outcome" where
  "MStack_do E s (Push v) = Returned (MStack_append E s v)"
| "MStack_do E s PopTop = MStack_pop s"

fun MStack_run :: "env \<Rightarrow> mstack \<Rightarrow> stack_op list \<Rightarrow> mstack" where
  "MStack_run E s [] = s"
| "MStack_run E s (x # xs) = MStack_run E (state_of (MStack_do E s x)) xs"

definition coll_inv :: "'a mcollection_scheme \<Rightarrow> bool" where
  "coll_inv s \<longleftrightarrow>
     distinct (map eid (elements s)) \<and>
     (\<forall>i \<in> set (map eid (elements s)). i < next_id s) \<and>
     distinct (elem_ids (submobjects s)) \<and>
     set (elem_ids (submobjects s)) = set (map eid (elements s))"

definition all_indexed :: "melement list \<Rightarrow> bool" where
  "all_indexed es \<longleftrightarrow> (\<forall>e \<in> set es. index e \<noteq> None)"

definition arr_inv :: "marray \<Rightarrow> bool" where
  "arr_inv s \<longleftrightarrow>
     coll_inv s \<and>
     (index_enabled s \<longrightarrow>
        all_indexed (elements s) \<and> index (hidden_element s) \<noteq> None \<and> index_dir s \<noteq> None)"

section \<open>Concrete inputs\<close>

text \<open>
  A renderer whose value texts are half a unit wide and high and whose index texts a
  quarter, and the array \<open>MArray([1, 2, 3])\<close>, before and after \<open>add_indexes(UP, 0.25)\<close>.
\<close>

definition example_env :: env where
  "example_env = \<lparr>float_str = (\<lambda>r. ''0.0''), value_size = (\<lambda>s. (1 / 2, 1 / 2)),
                   index_size = (\<lambda>s. (1 / 4, 1 / 4))\<rparr>"

definition example_array :: marray where
  "example_array =
     state_of (MArray_init example_env [PInt 1, PInt 2, PInt 3] RIGHT DEFAULT_style)"

definition example_indexed :: marray where
  "example_indexed = state_of (add_indexes example_env example_array UP (1 / 4))"

definition example_stack :: mstack where
  "example_stack = MStack_init example_env [PInt 1, PInt 2] (1 / 10) DEFAULT_style"

definition example_single :: marray where
  "example_single =
     state_of (add_indexes example_env
       (state_of (MArray_init example_env [PInt 7] RIGHT DEFAULT_style)) UP (1 / 4))"

text \<open>
  The graph with the nodes \<open>A\<close> at the origin and \<open>B\<close> at \<open>(2, 0, 0)\<close>, and the same graph
  after \<open>add_edge(A, B)\<close> and \<open>add_edge(B, A)\<close>.
\<close>

definition example_graph :: mgraph where
  "example_graph =
     state_of (and_then (add_node (MGraph_empty GraphStyle_DEFAULT) ''A'' ORIGIN)
                 (\<lambda>g. add_node g ''B'' (2, 0, 0)))"

definition example_both :: mgraph where
  "example_both =
     state_of (and_then (add_edge example_env example_graph ''A'' ''B'' PNone (1 / 5))
                 (\<lambda>g. add_edge example_env g ''B'' ''A'' PNone (1 / 5)))"


section \<open>The concrete inputs, evaluated\<close>

lemma str_int_digits:
  "str_int 0 = ''0''" "str_int 1 = ''1''" "str_int 2 = ''2''" "str_int 3 = ''3''"
  "str_int 7 = ''7''"
  by (simp_all add: str_int_def str_nat.simps)

text \<open>The defining equations used to evaluate the model on concrete inputs.\<close>

lemmas eval_defs =
  MArray_init_def MStack_init_def MArray_append_def MCollection_append_def MStack_append_def
  MArray_update_style_def update_style_def new_elem_def append_helper_def MElement_def
  add_indexes_def add_index_def get_index_buff_def
  Rectangle_def Text_def Line_def text_move_to_def text_shift_def elem_shift_def
  box_shift_def box_at_def move_to_shift_def next_to_shift_def get_critical_point_def
  get_center_def extremum_def elem_box_def body_box_def box_union_def collection_shift_def
  collection_box_def stack_shift_def stack_box_def group_add_def group_remove_def
  DEFAULT_style_def ORIGIN_def RIGHT_def LEFT_def UP_def DOWN_def UL_def UR_def
  width_def height_def str_int_digits norm_index_def slice_start_def
  MCollection_pop_def MArray_pop_def MStack_pop_def logic_pop_def shift_from_def
  set_index_from_def Let_def

lemmas examples =
  example_env_def example_array_def example_indexed_def example_single_def

lemma example_array_value:
  "example_array =
     \<lparr>elements = [\<lparr>eid = 1, square = \<lparr>lo = (- (3 / 2), - (1 / 2), 0), hi =
     (- (1 / 2), 1 / 2, 0)\<rparr>, value_text = \<lparr>str = ''1'', tbox = \<lparr>lo = (- (5
     / 4), - (1 / 4), 0), hi = (- (3 / 4), 1 / 4, 0)\<rparr>\<rparr>, index = None\<rparr>,
     \<lparr>eid = 2, square = \<lparr>lo = (- (1 / 2), - (1 / 2), 0), hi = (1 / 2, 1 / 2,
     0)\<rparr>, value_text = \<lparr>str = ''2'', tbox = \<lparr>lo = (- (1 / 4), - (1 / 4),
     0), hi = (1 / 4, 1 / 4, 0)\<rparr>\<rparr>, index = None\<rparr>, \<lparr>eid = 3, square
     = \<lparr>lo = (1 / 2, - (1 / 2), 0), hi = (3 / 2, 1 / 2, 0)\<rparr>, value_text =
     \<lparr>str = ''3'', tbox = \<lparr>lo = (3 / 4, - (1 / 4), 0), hi = (5 / 4, 1 / 4,
     0)\<rparr>\<rparr>, index = None\<rparr>], submobjects = [HiddenElem 0, Elem 1, Elem 2,
     Elem 3, HiddenElem 4], hidden_element = \<lparr>eid = 4, square = \<lparr>lo = (- (3 / 2),
     - (1 / 2), 0), hi = (- (1 / 2), 1 / 2, 0)\<rparr>, value_text = \<lparr>str = ''0'', tbox
     = \<lparr>lo = (- (5 / 4), - (1 / 4), 0), hi = (- (3 / 4), 1 / 4, 0)\<rparr>\<rparr>,
     index = None\<rparr>, style = \<lparr>square_width = 1, square_height = 1\<rparr>, dir =
     (1, 0, 0), margin = 0, next_id = 5, index_enabled = False, index_dir = None\<rparr>"
  by (simp add: examples eval_defs)

lemma example_indexed_value:
  "example_indexed =
     \<lparr>elements = [\<lparr>eid = 1, square = \<lparr>lo = (- (3 / 2), - (1 / 2), 0), hi =
     (- (1 / 2), 1 / 2, 0)\<rparr>, value_text = \<lparr>str = ''1'', tbox = \<lparr>lo = (- (5
     / 4), - (1 / 4), 0), hi = (- (3 / 4), 1 / 4, 0)\<rparr>\<rparr>, index = Some \<lparr>str
     = ''0'', tbox = \<lparr>lo = (- (9 / 8), 3 / 4, 0), hi = (- (7 / 8), 1,
     0)\<rparr>\<rparr>\<rparr>, \<lparr>eid = 2, square = \<lparr>lo = (- (1 / 2), - (1 / 2),
     0), hi = (1 / 2, 1 / 2, 0)\<rparr>, value_text = \<lparr>str = ''2'', tbox = \<lparr>lo =
     (- (1 / 4), - (1 / 4), 0), hi = (1 / 4, 1 / 4, 0)\<rparr>\<rparr>, index = Some
     \<lparr>str = ''1'', tbox = \<lparr>lo = (- (1 / 8), 3 / 4, 0), hi = (1 / 8, 1,
     0)\<rparr>\<rparr>\<rparr>, \<lparr>eid = 3, square = \<lparr>lo = (1 / 2, - (1 / 2), 0),
     hi = (3 / 2, 1 / 2, 0)\<rparr>, value_text = \<lparr>str = ''3'', tbox = \<lparr>lo = (3 /
     4, - (1 / 4), 0), hi = (5 / 4, 1 / 4, 0)\<rparr>\<rparr>, index = Some \<lparr>str =
     ''2'', tbox = \<lparr>lo = (7 / 8, 3 / 4, 0), hi = (9 / 8, 1, 0)\<rparr>\<rparr>\<rparr>],
     submobjects = [HiddenElem 0, Elem 1, Elem 2, Elem 3, HiddenElem 4], hidden_element =
     \<lparr>eid = 4, square = \<lparr>lo = (- (3 / 2), - (1 / 2), 0), hi = (- (1 / 2), 1 / 2,
     0)\<rparr>, value_text = \<lparr>str = ''0'', tbox = \<lparr>lo = (- (5 / 4), - (1 / 4),
     0), hi = (- (3 / 4), 1 / 4, 0)\<rparr>\<rparr>, index = Some \<lparr>str = ''0'', tbox =
     \<lparr>lo = (- (9 / 8), 3 / 4, 0), hi = (- (7 / 8), 1, 0)\<rparr>\<rparr>\<rparr>, style
     = \<lparr>square_width = 1, square_height = 1\<rparr>, dir = (1, 0, 0), margin = 0,
     next_id = 5, index_enabled = True, index_dir = Some (0, 1, 0)\<rparr>"
  by (simp add: examples eval_defs)

lemma example_single_value:
  "example_single =
     \<lparr>elements = [\<lparr>eid = 1, square = \<lparr>lo = (- (1 / 2), - (1 / 2), 0), hi =
     (1 / 2, 1 / 2, 0)\<rparr>, value_text = \<lparr>str = ''7'', tbox = \<lparr>lo = (- (1 /
     4), - (1 / 4), 0), hi = (1 / 4, 1 / 4, 0)\<rparr>\<rparr>, index = Some \<lparr>str =
     ''0'', tbox = \<lparr>lo = (- (1 / 8), 3 / 4, 0), hi = (1 / 8, 1,
     0)\<rparr>\<rparr>\<rparr>], submobjects = [HiddenElem 0, Elem 1, HiddenElem 2],
     hidden_element = \<lparr>eid = 2, square = \<lparr>lo = (- (1 / 2), - (1 / 2), 0), hi = (1
     / 2, 1 / 2, 0)\<rparr>, value_text = \<lparr>str = ''0'', tbox = \<lparr>lo = (- (1 / 4),
     - (1 / 4), 0), hi = (1 / 4, 1 / 4, 0)\<rparr>\<rparr>, index = Some \<lparr>str = ''0'',
     tbox = \<lparr>lo = (- (1 / 8), 3 / 4, 0), hi = (1 / 8, 1, 0)\<rparr>\<rparr>\<rparr>,
     style = \<lparr>square_width = 1, square_height = 1\<rparr>, dir = (1, 0, 0), margin = 0,
     next_id = 3, index_enabled = True, index_dir = Some (0, 1, 0)\<rparr>"
  by (simp add: examples eval_defs)

lemma upto_examples: "[- 1..1] = [- 1, 0, 1 :: int]" "[- 1..- 1] = [- 1 :: int]"
  by code_simp+

section \<open>Element access\<close>

lemma norm_index_less: "norm_index n i = Some k \<Longrightarrow> k < n"
  by (auto simp: norm_index_def split: if_splits)

lemma example_array_length: "length (elements example_array) = 3"
  by (simp add: example_array_value)

lemma example_array_flags: "\<not> index_enabled example_array \<and> dir example_array = RIGHT"
  by (simp add: example_array_value RIGHT_def)

lemma example_indexed_flags: "index_enabled example_indexed \<and> dir example_indexed = RIGHT"
  by (simp add: example_indexed_value RIGHT_def)

text \<open>
  C8 (as the code has it). \<open>collection[k]\<close> on a collection of length \<open>n\<close> fails exactly
  when \<open>k \<ge> n\<close> (the \<open>Exception\<close> of the guard) or \<open>k < -n\<close> (Python's \<open>IndexError\<close>). For
  \<open>0 \<le> k < n\<close> it returns the element at position \<open>k\<close>, and for \<open>-n \<le> k < 0\<close> the element
  at position \<open>n + k\<close>, without error.
\<close>

theorem getitem_bounds:
  "(isl (getitem s k) \<longleftrightarrow> k \<ge> int (length (elements s)) \<or> k < - int (length (elements s)))
   \<and> (0 \<le> k \<and> k < int (length (elements s)) \<longrightarrow> getitem s k = Inr (elements s ! nat k))
   \<and> (- int (length (elements s)) \<le> k \<and> k < 0 \<longrightarrow>
        getitem s k = Inr (elements s ! nat (int (length (elements s)) + k)))
   \<and> (k \<ge> int (length (elements s)) \<longrightarrow> getitem s k = Inl (Exception ''Index out of bounds!''))
   \<and> (k < - int (length (elements s)) \<longrightarrow> getitem s k = Inl IndexError)"
  by (auto simp: getitem_def norm_index_def)

theorem getitem_bounds_witness:
  "getitem example_array 1 = Inr (elements example_array ! 1)
   \<and> getitem example_array (- 2) = Inr (elements example_array ! 1)
   \<and> getitem example_array 3 = Inl (Exception ''Index out of bounds!'')
   \<and> getitem example_array (- 4) = Inl IndexError"
  using getitem_bounds [of example_array 1] getitem_bounds [of example_array "- 2"]
    getitem_bounds [of example_array 3] getitem_bounds [of example_array "- 4"]
  by (simp add: example_array_length)

text \<open>
  C8 as stated fails: on \<open>MArray([1, 2, 3])\<close> the position \<open>-1\<close> is outside \<open>[0, 3)\<close>, and
  \<open>collection[-1]\<close> returns the last element without error.
\<close>

theorem getitem_negative_counterexample:
  "length (elements example_array) = 3
   \<and> \<not> (0 \<le> (- 1 :: int) \<and> (- 1 :: int) < 3)
   \<and> getitem example_array (- 1) = Inr (elements example_array ! 2)"
  by (simp add: example_array_length getitem_def norm_index_def)

section \<open>Enabling the index captions\<close>

lemma vabs_vneg: "vabs (vneg v) = vabs v"
  by (cases v) simp

text \<open>
  C7 (as the code has it). On an array whose indexing is not yet enabled, \<open>add_indexes\<close>
  with the growth direction or its negation raises the error and leaves the array as it
  was, whatever the growth direction. Once indexing is enabled, \<open>add_indexes\<close> returns the
  array unchanged and raises nothing, whatever the direction.
\<close>

theorem add_indexes_parallel:
  "(\<not> index_enabled s \<longrightarrow> direction = dir s \<or> direction = vneg (dir s) \<longrightarrow>
      add_indexes E s direction buff =
        Raised (Exception ''The direction given is parallel to array growth direction!'') s)
   \<and> (index_enabled s \<longrightarrow> add_indexes E s direction buff = Returned s)"
  by (auto simp: add_indexes_def vabs_vneg)

theorem add_indexes_parallel_witness:
  "add_indexes example_env example_array LEFT (1 / 4) =
     Raised (Exception ''The direction given is parallel to array growth direction!'')
       example_array
   \<and> add_indexes example_env example_indexed UP (1 / 4) = Returned example_indexed"
  using add_indexes_parallel [of example_array LEFT example_env "1 / 4"]
    add_indexes_parallel [of example_indexed UP example_env "1 / 4"]
  by (simp add: example_array_flags example_indexed_flags LEFT_def RIGHT_def)

text \<open>
  C7 as stated fails: the array \<open>MArray([1, 2, 3])\<close> grows to the right and has its indexes
  enabled; \<open>add_indexes(RIGHT)\<close> on it returns and raises nothing.
\<close>

theorem add_indexes_enabled_counterexample:
  "dir example_indexed = RIGHT
   \<and> add_indexes example_env example_indexed RIGHT (1 / 4) = Returned example_indexed
   \<and> \<not> raised (add_indexes example_env example_indexed RIGHT (1 / 4))"
  by (simp add: example_indexed_flags add_indexes_def)

section \<open>The list and the visual group\<close>

lemma elem_ids_append [simp]: "elem_ids (g @ h) = elem_ids g @ elem_ids h"
  by (induction g rule: elem_ids.induct) auto

lemma elem_ids_filter_Elem:
  "elem_ids (filter (\<lambda>x. x \<noteq> Elem i) g) = filter (\<lambda>x. x \<noteq> i) (elem_ids g)"
  by (induction g rule: elem_ids.induct) auto

lemma elem_ids_filter_other:
  "(\<And>i. m \<noteq> Elem i) \<Longrightarrow> elem_ids (filter (\<lambda>x. x \<noteq> m) g) = elem_ids g"
  by (induction g rule: elem_ids.induct) auto

lemma elem_ids_remove1: "elem_ids (remove1 (Elem i) g) = remove1 i (elem_ids g)"
  by (induction g rule: elem_ids.induct) auto

lemma elem_ids_group_add_Elem:
  "elem_ids (group_add g (Elem i)) = filter (\<lambda>x. x \<noteq> i) (elem_ids g) @ [i]"
  by (simp add: group_add_def elem_ids_filter_Elem)

lemma elem_ids_group_add_Hidden [simp]:
  "elem_ids (group_add g (HiddenElem i)) = elem_ids g"
  by (simp add: group_add_def elem_ids_filter_other)

lemma elem_ids_group_add_Container [simp]:
  "elem_ids (group_add g Container) = elem_ids g"
  by (simp add: group_add_def elem_ids_filter_other)

lemma elem_ids_group_remove:
  "elem_ids (group_remove g (Elem i)) = remove1 i (elem_ids g)"
  by (simp add: group_remove_def elem_ids_remove1)

lemma eid_elem_shift [simp]: "eid (elem_shift v e) = eid e"
  by (simp add: elem_shift_def)

lemma eid_add_index [simp]: "eid (add_index e c d b) = eid e"
  by (simp add: add_index_def)

lemma coll_inv_length:
  "coll_inv s \<Longrightarrow> length (elem_ids (submobjects s)) = length (elements s)"
  unfolding coll_inv_def
  by (metis distinct_card length_map)

lemma coll_inv_append_helper:
  assumes "coll_inv s" "eid e = next_id s"
  shows "coll_inv (append_helper (s\<lparr>next_id := Suc (next_id s)\<rparr>) e)"
proof -
  have fresh: "next_id s \<notin> set (map eid (elements s))"
    using assms(1) unfolding coll_inv_def by auto
  then have "filter (\<lambda>x. x \<noteq> next_id s) (elem_ids (submobjects s)) = elem_ids (submobjects s)"
    using assms(1) unfolding coll_inv_def by (metis (mono_tags, lifting) filter_True)
  with fresh assms show ?thesis
    unfolding coll_inv_def append_helper_def Let_def
    by (auto simp: elem_ids_group_add_Elem less_Suc_eq)
qed

lemma coll_inv_update_style [simp]: "coll_inv (update_style s) = coll_inv s"
  by (simp add: coll_inv_def update_style_def)

lemma next_id_update_style [simp]: "next_id (update_style s) = next_id s"
  by (simp add: update_style_def)

lemma coll_inv_MCollection_append: "coll_inv s \<Longrightarrow> coll_inv (MCollection_append E s v)"
  unfolding MCollection_append_def Let_def
  by (rule coll_inv_append_helper) (simp_all add: new_elem_def MElement_def)

lemma distinct_take_drop_Suc:
  "distinct ys \<Longrightarrow> distinct (take k ys @ drop (Suc k) ys)"
proof (induction ys arbitrary: k)
  case Nil
  then show ?case by simp
next
  case (Cons y ys)
  show ?case
  proof (cases k)
    case 0
    with Cons.prems show ?thesis by simp
  next
    case (Suc m)
    have "y \<notin> set (take m ys)" "y \<notin> set (drop (Suc m) ys)"
      using Cons.prems by (auto dest: in_set_takeD in_set_dropD)
    with Cons Suc show ?thesis by simp
  qed
qed

lemma set_take_drop_Suc:
  "distinct ys \<Longrightarrow> k < length ys \<Longrightarrow> set (take k ys @ drop (Suc k) ys) = set ys - {ys ! k}"
proof (induction ys arbitrary: k)
  case Nil
  then show ?case by simp
next
  case (Cons y ys)
  show ?case
  proof (cases k)
    case 0
    with Cons.prems show ?thesis by auto
  next
    case (Suc m)
    with Cons.prems have "set (take m ys @ drop (Suc m) ys) = set ys - {ys ! m}"
      by (intro Cons.IH) auto
    moreover have "y \<noteq> ys ! m" using Cons.prems Suc by auto
    ultimately show ?thesis using Suc by auto
  qed
qed

lemma set_elem_ids_group_add:
  "set (elem_ids (group_add g (Elem a))) = insert a (set (elem_ids g))"
  by (auto simp: elem_ids_group_add_Elem)

lemma distinct_elem_ids_group_add:
  "distinct (elem_ids g) \<Longrightarrow> distinct (elem_ids (group_add g (Elem a)))"
  by (simp add: elem_ids_group_add_Elem)

lemma set_elem_ids_group_remove:
  "distinct (elem_ids g) \<Longrightarrow>
   set (elem_ids (group_remove g (Elem a))) = set (elem_ids g) - {a}"
  by (simp add: elem_ids_group_remove)

lemma distinct_elem_ids_group_remove:
  "distinct (elem_ids g) \<Longrightarrow> distinct (elem_ids (group_remove g (Elem a)))"
  by (simp add: elem_ids_group_remove)

lemma coll_inv_cong:
  "map eid (elements t) = map eid (elements s) \<Longrightarrow> submobjects t = submobjects s \<Longrightarrow>
   next_id t = next_id s \<Longrightarrow> coll_inv t = coll_inv s"
  unfolding coll_inv_def by (simp only:)

lemma coll_inv_logic_pop:
  assumes "coll_inv s" "k < length (elements s)"
  shows "coll_inv (logic_pop s k)"
proof -
  let ?ids = "map eid (elements s)"
  have d: "distinct ?ids" and g: "distinct (elem_ids (submobjects s))"
    and e: "set (elem_ids (submobjects s)) = set ?ids"
    and b: "\<forall>i \<in> set ?ids. i < next_id s"
    using assms(1) unfolding coll_inv_def by auto
  have m: "map eid (take k (elements s) @ drop (Suc k) (elements s)) =
           take k ?ids @ drop (Suc k) ?ids"
    by (simp add: take_map drop_map)
  have k: "k < length ?ids" using assms(2) by simp
  have 1: "distinct (take k ?ids @ drop (Suc k) ?ids)"
    using d by (rule distinct_take_drop_Suc)
  have 2: "set (take k ?ids @ drop (Suc k) ?ids) = set ?ids - {?ids ! k}"
    using d k by (rule set_take_drop_Suc)
  have 3: "?ids ! k = eid (elements s ! k)" using assms(2) by simp
  have 4: "\<forall>i \<in> set (take k ?ids @ drop (Suc k) ?ids). i < next_id s"
    using b by (metis Un_iff in_set_dropD in_set_takeD set_append)
  show ?thesis
    unfolding coll_inv_def logic_pop_def
    using 1 2 3 4 m g e
    by (simp add: set_elem_ids_group_remove distinct_elem_ids_group_remove del: map_append)
qed

lemma map_eid_shift_from [simp]: "map eid (shift_from k v es) = map eid es"
proof -
  have "map eid (shift_from k v es) = map eid (take k es) @ map eid (drop k es)"
    by (simp add: shift_from_def comp_def)
  then show ?thesis by (metis append_take_drop_id map_append)
qed

lemma coll_inv_MCollection_pop:
  assumes "coll_inv s"
  shows "coll_inv (state_of (MCollection_pop s i))"
proof (cases "elements s = []")
  case True
  with assms show ?thesis by (simp add: MCollection_pop_def)
next
  case False
  show ?thesis
  proof (cases "norm_index (length (elements s)) i")
    case None
    with False assms show ?thesis by (simp add: MCollection_pop_def)
  next
    case (Some k)
    then have "k < length (elements s)" by (rule norm_index_less)
    with assms have "coll_inv (logic_pop s k)" by (rule coll_inv_logic_pop)
    moreover have "coll_inv (state_of (MCollection_pop s i)) = coll_inv (logic_pop s k)"
      using False Some by (intro coll_inv_cong) (simp_all add: MCollection_pop_def Let_def)
    ultimately show ?thesis by simp
  qed
qed

lemma map_eid_update:
  "eid y = eid (xs ! k) \<Longrightarrow> map eid (xs[k := y]) = map eid xs"
  by (induction xs arbitrary: k) (auto split: nat.splits)

lemma coll_inv_MStack_do: "coll_inv s \<Longrightarrow> coll_inv (state_of (MStack_do E s x))"
  by (cases x)
    (simp_all add: MStack_append_def MStack_pop_def coll_inv_MCollection_append
      coll_inv_MCollection_pop)

lemma coll_inv_MStack_run: "coll_inv s \<Longrightarrow> coll_inv (MStack_run E s xs)"
  by (induction xs arbitrary: s) (simp_all add: coll_inv_MStack_do)

lemma all_indexed_append [simp]:
  "all_indexed (xs @ ys) \<longleftrightarrow> all_indexed xs \<and> all_indexed ys"
  by (auto simp: all_indexed_def)

lemma all_indexed_map_shift [simp]: "all_indexed (map (elem_shift v) xs) = all_indexed xs"
  by (induction xs) (simp_all add: all_indexed_def elem_shift_def)

lemma all_indexed_shift_from [simp]: "all_indexed (shift_from k v es) = all_indexed es"
proof -
  have "all_indexed (shift_from k v es) = all_indexed (take k es @ drop k es)"
    unfolding shift_from_def by (simp del: append_take_drop_id)
  then show ?thesis by simp
qed

lemma all_indexed_take: "all_indexed es \<Longrightarrow> all_indexed (take k es)"
  unfolding all_indexed_def by (metis in_set_takeD)

lemma all_indexed_drop: "all_indexed es \<Longrightarrow> all_indexed (drop k es)"
  unfolding all_indexed_def by (metis in_set_dropD)

lemma all_indexed_update:
  "all_indexed es \<Longrightarrow> index e \<noteq> None \<Longrightarrow> all_indexed (es[k := e])"
  unfolding all_indexed_def by (metis insert_iff set_update_subset_insert subsetD)

lemma all_indexed_nth: "all_indexed es \<Longrightarrow> k < length es \<Longrightarrow> index (es ! k) \<noteq> None"
  unfolding all_indexed_def by simp

lemma set_index_loop_props:
  "all_indexed es \<Longrightarrow>
   all_indexed (state_of (set_index_loop is old es)) \<and>
   map eid (state_of (set_index_loop is old es)) = map eid es"
proof (induction "is" arbitrary: old es)
  case Nil
  then show ?case by simp
next
  case (Cons i rest)
  show ?case
  proof (cases "norm_index (length es) i")
    case None
    with Cons.prems show ?thesis by simp
  next
    case (Some k)
    then have k: "k < length es" by (rule norm_index_less)
    with Cons.prems obtain c where c: "index (es ! k) = Some c"
      using all_indexed_nth by fastforce
    let ?es' = "es[k := (es ! k)\<lparr>index := Some (text_move_to old (tbox c))\<rparr>]"
    have "all_indexed ?es'" using Cons.prems by (intro all_indexed_update) simp_all
    from Cons.IH [OF this, of c] have
      "all_indexed (state_of (set_index_loop rest c ?es'))"
      "map eid (state_of (set_index_loop rest c ?es')) = map eid ?es'"
      by simp_all
    moreover have "map eid ?es' = map eid es" by (rule map_eid_update) simp
    ultimately show ?thesis using Some c by simp
  qed
qed

lemma state_of_set_index_from:
  "elements (state_of (set_index_from s a b p)) = state_of (set_index_loop [a..b] p (elements s))
   \<and> submobjects (state_of (set_index_from s a b p)) = submobjects s
   \<and> next_id (state_of (set_index_from s a b p)) = next_id s
   \<and> index_enabled (state_of (set_index_from s a b p)) = index_enabled s
   \<and> hidden_element (state_of (set_index_from s a b p)) = hidden_element s
   \<and> index_dir (state_of (set_index_from s a b p)) = index_dir s"
  by (cases "set_index_loop [a..b] p (elements s)") (simp_all add: set_index_from_def)

lemma MCollection_pop_array_fields:
  fixes s :: marray
  shows "index_enabled (state_of (MCollection_pop s i)) = index_enabled s
   \<and> hidden_element (state_of (MCollection_pop s i)) = hidden_element s
   \<and> index_dir (state_of (MCollection_pop s i)) = index_dir s
   \<and> (all_indexed (elements s) \<longrightarrow> all_indexed (elements (state_of (MCollection_pop s i))))"
  by (auto simp: MCollection_pop_def logic_pop_def Let_def all_indexed_take all_indexed_drop
      split: option.splits)

lemma arr_inv_set_index_from:
  assumes "arr_inv s" "index_enabled s"
  shows "arr_inv (state_of (set_index_from s a b p))"
proof -
  have ai: "all_indexed (elements s)" using assms by (simp add: arr_inv_def)
  note f = state_of_set_index_from [of s a b p]
  note l = set_index_loop_props [OF ai, of "[a..b]" p]
  have "coll_inv (state_of (set_index_from s a b p)) = coll_inv s"
    by (rule coll_inv_cong) (simp_all add: f l)
  with assms f l show ?thesis by (simp add: arr_inv_def)
qed

lemma arr_inv_MArray_pop:
  assumes "arr_inv s"
  shows "arr_inv (state_of (MArray_pop s i))"
proof (cases "elements s = [] \<or> norm_index (length (elements s)) i = None")
  case True
  with assms show ?thesis by (auto simp: MArray_pop_def)
next
  case False
  then obtain k where k: "norm_index (length (elements s)) i = Some k" and ne: "elements s \<noteq> []"
    by auto
  from k ne obtain s1 where s1: "MCollection_pop s i = Returned s1"
    by (simp add: MCollection_pop_def Let_def)
  have c1: "coll_inv s1"
    using coll_inv_MCollection_pop [of s i] assms s1 by (simp add: arr_inv_def)
  note f = MCollection_pop_array_fields [of s i, unfolded s1, simplified]
  have a1: "arr_inv s1" using assms c1 f by (simp add: arr_inv_def)
  show ?thesis
  proof (cases "index_enabled s1")
    case False
    with a1 k ne s1 show ?thesis by (simp add: MArray_pop_def)
  next
    case True
    show ?thesis
    proof (cases "index (elements s ! k)")
      case None
      with a1 k ne s1 True show ?thesis by (simp add: MArray_pop_def)
    next
      case (Some p)
      with k ne s1 True have
        "MArray_pop s i = set_index_from s1 i (int (length (elements s1)) - 1) p"
        by (simp add: MArray_pop_def)
      with a1 True show ?thesis by (simp add: arr_inv_set_index_from)
    qed
  qed
qed

lemma append_helper_fields:
  "elements (append_helper s e) = elements s @ [elements (append_helper s e) ! length (elements s)]
   \<and> eid (elements (append_helper s e) ! length (elements s)) = eid e
   \<and> hidden_element (append_helper s e) = hidden_element s
   \<and> next_id (append_helper s e) = next_id s"
  by (simp add: append_helper_def Let_def elem_shift_def)

lemma append_helper_more:
  fixes s :: marray
  shows "index_enabled (append_helper s e) = index_enabled s
    \<and> index_dir (append_helper s e) = index_dir s"
  by (simp add: append_helper_def Let_def)

lemma arr_inv_MArray_append:
  assumes "arr_inv s"
  shows "arr_inv (state_of (MArray_append E s v))"
proof -
  let ?s1 = "update_style s"
  have i1: "arr_inv ?s1" using assms by (simp add: arr_inv_def) (simp add: update_style_def)
  show ?thesis
  proof (cases "index_enabled s")
    case False
    let ?s2 = "append_helper (?s1\<lparr>next_id := Suc (next_id ?s1)\<rparr>) (new_elem E ?s1 v)"
    have "coll_inv ?s2"
      using i1 by (intro coll_inv_append_helper) (simp_all add: arr_inv_def new_elem_def MElement_def)
    moreover have "\<not> index_enabled ?s2" using False
      by (simp add: append_helper_more) (simp add: update_style_def)
    moreover have "MArray_append E s v = Returned ?s2"
      using False \<open>\<not> index_enabled ?s2\<close>
      by (simp add: MArray_append_def MArray_update_style_def Let_def) (simp add: update_style_def)
    ultimately show ?thesis by (simp add: arr_inv_def)
  next
    case True
    then have en: "index_enabled ?s1" by (simp add: update_style_def)
    from i1 en obtain h d where h: "index (hidden_element ?s1) = Some h"
      and d: "index_dir ?s1 = Some d" and ai: "all_indexed (elements ?s1)"
      by (auto simp: arr_inv_def)
    let ?s2 = "append_helper (?s1\<lparr>next_id := Suc (next_id ?s1)\<rparr>) (new_elem E ?s1 v)"
    let ?n = "length (elements ?s1)"
    let ?p = "elements ?s2 ! ?n"
    note af = append_helper_fields [of "?s1\<lparr>next_id := Suc (next_id ?s1)\<rparr>" "new_elem E ?s1 v", simplified]
    note am = append_helper_more [of "?s1\<lparr>next_id := Suc (next_id ?s1)\<rparr>" "new_elem E ?s1 v", simplified]
    have c2: "coll_inv ?s2"
      using i1 by (intro coll_inv_append_helper) (simp_all add: arr_inv_def new_elem_def MElement_def)
    have el: "elements ?s2 = elements ?s1 @ [?p]" using af by simp
    then have bl: "butlast (elements ?s2) = elements ?s1" and la: "last (elements ?s2) = ?p"
      by (metis butlast_snoc, metis last_snoc)
    let ?ix = "Text (index_size E) (str_int (int (length (elements ?s2)) - 1))"
    let ?q = "add_index ?p ?ix d (get_index_buff ?s2 h)"
    let ?s3 = "?s2\<lparr>elements := elements ?s1 @ [?q]\<rparr>"
    have r: "MArray_append E s v = Returned ?s3"
      using en h d am af bl la
      by (simp add: MArray_append_def MArray_update_style_def Let_def)
    have "map eid (elements ?s3) = map eid (elements ?s2)"
      by (subst el) simp
    then have "coll_inv ?s3 = coll_inv ?s2" by (intro coll_inv_cong) simp_all
    moreover have "all_indexed (elements ?s3)"
      using ai by (simp add: all_indexed_def add_index_def)
    ultimately show ?thesis using r c2 en h d am af by (simp add: arr_inv_def)
  qed
qed

lemma map_eid_add_indexes:
  "map eid (map (\<lambda>(i, e). add_index e (f i) d b) (enumerate n es)) = map eid es"
  by (induction es arbitrary: n) simp_all

lemma all_indexed_add_indexes:
  "all_indexed (map (\<lambda>(i, e). add_index e (f i) d b) (enumerate n es))"
  by (induction es arbitrary: n) (simp_all add: all_indexed_def add_index_def)

lemma arr_inv_add_indexes:
  assumes "arr_inv s"
  shows "arr_inv (state_of (add_indexes E s d b))"
proof (cases "index_enabled s \<or> vabs (dir s) = vabs d")
  case True
  with assms show ?thesis by (auto simp: add_indexes_def)
next
  case False
  let ?t = "state_of (add_indexes E s d b)"
  have el: "elements ?t =
      map (\<lambda>(i, e). add_index e (Text (index_size E) (str_int (int i))) d b)
        (enumerate 0 (elements s))"
    using False by (simp add: add_indexes_def)
  have "map eid (elements ?t) = map eid (elements s)"
    unfolding el by (rule map_eid_add_indexes)
  then have "coll_inv ?t = coll_inv s"
    using False by (intro coll_inv_cong) (simp_all add: add_indexes_def)
  moreover have "all_indexed (elements ?t)"
    unfolding el by (rule all_indexed_add_indexes)
  moreover have "index (hidden_element ?t) \<noteq> None" "index_dir ?t \<noteq> None"
    using False by (simp_all add: add_indexes_def add_index_def)
  ultimately show ?thesis using assms by (simp add: arr_inv_def)
qed

lemma arr_inv_MArray_do: "arr_inv s \<Longrightarrow> arr_inv (state_of (MArray_do E s x))"
  by (cases x)
    (simp_all add: arr_inv_MArray_append arr_inv_MArray_pop arr_inv_add_indexes)

lemma arr_inv_MArray_run: "arr_inv s \<Longrightarrow> arr_inv (MArray_run E s xs)"
  by (induction xs arbitrary: s) (simp_all add: arr_inv_MArray_do)

lemma index_enabled_MArray_append [simp]:
  "index_enabled (state_of (MArray_append E s v)) = index_enabled s"
  by (simp add: MArray_append_def MArray_update_style_def Let_def append_helper_def
      update_style_def split: option.splits)

lemma arr_inv_MArray_append_all:
  "arr_inv s \<Longrightarrow> arr_inv (state_of (MArray_append_all E s vs))"
proof (induction vs arbitrary: s)
  case Nil
  then show ?case by simp
next
  case (Cons v vs)
  from Cons.prems have a: "arr_inv (state_of (MArray_append E s v))"
    by (rule arr_inv_MArray_append)
  show ?case
  proof (cases "MArray_append E s v")
    case (Returned s')
    with a Cons.IH [of s'] show ?thesis by simp
  next
    case (Raised e s')
    with a show ?thesis by simp
  qed
qed

lemma index_enabled_MArray_append_all [simp]:
  "index_enabled (state_of (MArray_append_all E s vs)) = index_enabled s"
proof (induction vs arbitrary: s)
  case Nil
  then show ?case by simp
next
  case (Cons v vs)
  show ?case
  proof (cases "MArray_append E s v")
    case (Returned s')
    with Cons.IH [of s'] index_enabled_MArray_append [of E s v] show ?thesis by simp
  next
    case (Raised e s')
    with index_enabled_MArray_append [of E s v] show ?thesis by simp
  qed
qed

lemma coll_inv_moved:
  assumes "coll_inv s" "map eid (elements t) = map eid (elements s)"
    "elem_ids (submobjects t) = elem_ids (submobjects s)" "next_id s \<le> next_id t"
  shows "coll_inv t"
  using assms unfolding coll_inv_def by (metis order_less_le_trans)

lemma map_eid_collection_shift [simp]:
  "map eid (elements (collection_shift v s)) = map eid (elements s)"
  by (simp add: collection_shift_def comp_def)

lemma arr_inv_MArray_init: "arr_inv (state_of (MArray_init E arr d st))"
proof -
  let ?s0 = "\<lparr>elements = [], submobjects = [HiddenElem 0],
                hidden_element =
                  MElement 0 (Rectangle (square_width st) (square_height st))
                    (Text (value_size E) ''0''),
                style = st, dir = d, margin = 0, next_id = 1,
                index_enabled = False, index_dir = None\<rparr>"
  have i0: "arr_inv ?s0" by (simp add: arr_inv_def coll_inv_def)
  then have i1: "arr_inv (state_of (MArray_append_all E ?s0 arr))"
    by (rule arr_inv_MArray_append_all)
  show ?thesis
  proof (cases "MArray_append_all E ?s0 arr")
    case (Raised e s')
    with i1 show ?thesis by (simp add: MArray_init_def)
  next
    case (Returned s1)
    with i1 have c1: "coll_inv s1" by (simp add: arr_inv_def)
    have n1: "\<not> index_enabled s1"
      using index_enabled_MArray_append_all [of E ?s0 arr] unfolding Returned by simp
    let ?t = "state_of (MArray_init E arr d st)"
    let ?s2 = "collection_shift (vsub ORIGIN (get_center (collection_box s1))) s1"
    have t: "MArray_init E arr d st =
        Returned (?s2\<lparr>hidden_element :=
                         MElement (next_id ?s2) (square (hidden_element ?s2))
                           (value_text (hidden_element ?s2)),
                       submobjects := group_add (submobjects ?s2) (HiddenElem (next_id ?s2)),
                       next_id := Suc (next_id ?s2)\<rparr>)"
      unfolding MArray_init_def Let_def Returned by simp
    have "coll_inv ?t"
      using c1
      by (rule coll_inv_moved) (simp_all add: t collection_shift_def comp_def)
    moreover have "\<not> index_enabled ?t"
      using n1 by (simp add: t collection_shift_def)
    ultimately show ?thesis by (simp add: arr_inv_def)
  qed
qed

lemma coll_inv_foldl_MStack_append:
  "coll_inv s \<Longrightarrow> coll_inv (foldl (MStack_append E) s vs)"
  by (induction vs arbitrary: s) (simp_all add: MStack_append_def coll_inv_MCollection_append)

lemma coll_inv_MStack_init: "coll_inv (MStack_init E arr buff st)"
proof -
  let ?s0 = "\<lparr>elements = [], submobjects = [HiddenElem 0],
                hidden_element =
                  MElement 0 (Rectangle (square_width st) (square_height st))
                    (Text (value_size E) ''0''),
                style = st, dir = UP, margin = buff, next_id = 1,
                bottom_line = Line ORIGIN ORIGIN, left_line = Line ORIGIN ORIGIN,
                right_line = Line ORIGIN ORIGIN, spawnpoint = None\<rparr>"
  have "coll_inv ?s0" by (simp add: coll_inv_def)
  then have "coll_inv (foldl (MStack_append E) ?s0 arr)"
    by (rule coll_inv_foldl_MStack_append)
  then show ?thesis
    by (rule coll_inv_moved)
      (simp_all add: MStack_init_def Let_def stack_shift_def collection_shift_def comp_def)
qed

text \<open>One call of \<open>append\<close>: what it does to the list and to the group.\<close>

lemma coll_inv_fresh:
  assumes "coll_inv s"
  shows "next_id s \<notin> set (map eid (elements s))" "next_id s \<notin> set (elem_ids (submobjects s))"
  using assms unfolding coll_inv_def by auto

lemma elem_ids_group_add_fresh:
  "i \<notin> set (elem_ids g) \<Longrightarrow> elem_ids (group_add g (Elem i)) = elem_ids g @ [i]"
  by (auto simp: elem_ids_group_add_Elem filter_id_conv)

lemma append_helper_step:
  "\<exists>p. elements (append_helper s e) = elements s @ [p] \<and> eid p = eid e
       \<and> str (value_text p) = str (value_text e) \<and> (index e = None \<longrightarrow> index p = None)"
  "submobjects (append_helper s e) = group_add (submobjects s) (Elem (eid e))"
  by (simp_all add: append_helper_def Let_def elem_shift_def text_shift_def)

lemma new_elem_fields:
  "eid (new_elem E s v) = next_id s" "str (value_text (new_elem E s v)) = py_str E v"
  "index (new_elem E s v) = None"
  by (simp_all add: new_elem_def MElement_def text_move_to_def text_shift_def Text_def)

lemma MCollection_append_step:
  assumes "coll_inv s"
  shows "\<exists>e. elements (MCollection_append E s v) = elements s @ [e] \<and> eid e = next_id s
           \<and> str (value_text e) = py_str E v"
    and "elem_ids (submobjects (MCollection_append E s v)) = elem_ids (submobjects s) @ [next_id s]"
proof -
  let ?s1 = "(update_style s)\<lparr>next_id := Suc (next_id (update_style s))\<rparr>"
  let ?e = "new_elem E (update_style s) v"
  have m: "MCollection_append E s v = append_helper ?s1 ?e"
    by (simp add: MCollection_append_def Let_def)
  have el: "elements ?s1 = elements s" and sub: "submobjects ?s1 = submobjects s"
    by (simp_all add: update_style_def)
  from append_helper_step(1) [of ?s1 ?e]
  show "\<exists>e. elements (MCollection_append E s v) = elements s @ [e] \<and> eid e = next_id s
           \<and> str (value_text e) = py_str E v"
    unfolding m el by (auto simp: new_elem_fields)
  show "elem_ids (submobjects (MCollection_append E s v)) = elem_ids (submobjects s) @ [next_id s]"
    unfolding m append_helper_step(2) sub
    using coll_inv_fresh(2) [OF assms] by (simp add: new_elem_fields elem_ids_group_add_fresh)
qed

lemma MArray_append_step:
  assumes "arr_inv s"
  shows "error_of (MArray_append E s v) = None"
    and "\<exists>e. elements (state_of (MArray_append E s v)) = elements s @ [e] \<and> eid e = next_id s
           \<and> str (value_text e) = py_str E v"
    and "elem_ids (submobjects (state_of (MArray_append E s v))) =
           elem_ids (submobjects s) @ [next_id s]"
proof -
  let ?s1 = "update_style s"
  let ?e = "new_elem E ?s1 v"
  let ?s2 = "append_helper (?s1\<lparr>next_id := Suc (next_id ?s1)\<rparr>) ?e"
  have c: "coll_inv s" using assms by (simp add: arr_inv_def)
  from append_helper_step(1) [of "?s1\<lparr>next_id := Suc (next_id ?s1)\<rparr>" ?e]
  obtain p where p: "elements ?s2 = elements s @ [p]" "eid p = next_id s"
    "str (value_text p) = py_str E v" "index p = None"
    by (auto simp: new_elem_fields update_style_def)
  have sub2: "elem_ids (submobjects ?s2) = elem_ids (submobjects s) @ [next_id s]"
    unfolding append_helper_step(2)
    using coll_inv_fresh(2) [OF c]
    by (simp add: new_elem_fields update_style_def) (simp add: elem_ids_group_add_fresh)
  have en2: "index_enabled ?s2 = index_enabled s" "index_dir ?s2 = index_dir s"
    "hidden_element ?s2 = hidden_element s"
    by (simp_all add: append_helper_def Let_def update_style_def)
  have "error_of (MArray_append E s v) = None
    \<and> (\<exists>e. elements (state_of (MArray_append E s v)) = elements s @ [e] \<and> eid e = next_id s
           \<and> str (value_text e) = py_str E v)
    \<and> submobjects (state_of (MArray_append E s v)) = submobjects ?s2"
  proof (cases "index_enabled s")
    case False
    then have "MArray_append E s v = Returned ?s2"
      using en2 by (simp add: MArray_append_def MArray_update_style_def Let_def)
        (simp add: update_style_def)
    with p show ?thesis by simp
  next
    case True
    with assms obtain h d where h: "index (hidden_element s) = Some h"
      and d: "index_dir s = Some d"
      by (auto simp: arr_inv_def)
    have h1: "index (hidden_element ?s1) = Some h" and en1: "index_enabled ?s1"
      using h True by (simp_all add: update_style_def)
    let ?q = "add_index (last (elements ?s2))
                (Text (index_size E) (str_int (int (length (elements ?s2)) - 1)))
                d (get_index_buff ?s2 h)"
    have r: "MArray_append E s v =
               Returned (?s2\<lparr>elements := butlast (elements ?s2) @ [?q]\<rparr>)"
      using True h d h1 en1 en2
      by (simp add: MArray_append_def MArray_update_style_def Let_def)
    have bl: "butlast (elements ?s2) = elements s" and la: "last (elements ?s2) = p"
      unfolding p(1) by simp_all
    have q: "eid ?q = next_id s" "str (value_text ?q) = py_str E v"
      unfolding la using p by (simp_all add: add_index_def)
    show ?thesis
      unfolding r using q bl by simp
  qed
  with sub2
  show "error_of (MArray_append E s v) = None"
    and "\<exists>e. elements (state_of (MArray_append E s v)) = elements s @ [e] \<and> eid e = next_id s
           \<and> str (value_text e) = py_str E v"
    and "elem_ids (submobjects (state_of (MArray_append E s v))) =
           elem_ids (submobjects s) @ [next_id s]"
    by simp_all
qed

text \<open>One call of \<open>pop\<close> with an index the list accepts.\<close>

lemma logic_pop_step:
  "map eid (elements (logic_pop s k)) =
     take k (map eid (elements s)) @ drop (Suc k) (map eid (elements s))"
  "elem_ids (submobjects (logic_pop s k)) =
     remove1 (eid (elements s ! k)) (elem_ids (submobjects s))"
  by (simp_all add: logic_pop_def take_map drop_map elem_ids_group_remove)

lemma MCollection_pop_returned:
  assumes "norm_index (length (elements s)) i = Some k"
  shows "MCollection_pop s i =
     Returned ((logic_pop s k)\<lparr>elements :=
        shift_from (slice_start (length (elements (logic_pop s k))) i)
          (vneg (smul (width (square (elements s ! k))) (dir (logic_pop s k))))
          (elements (logic_pop s k))\<rparr>)"
proof -
  from assms have "k < length (elements s)" by (rule norm_index_less)
  then have "elements s \<noteq> []" by auto
  with assms show ?thesis by (simp add: MCollection_pop_def Let_def)
qed

lemma MCollection_pop_step:
  assumes "norm_index (length (elements s)) i = Some k"
  shows "error_of (MCollection_pop s i) = None"
    and "map eid (elements (state_of (MCollection_pop s i))) =
           take k (map eid (elements s)) @ drop (Suc k) (map eid (elements s))"
    and "elem_ids (submobjects (state_of (MCollection_pop s i))) =
           remove1 (eid (elements s ! k)) (elem_ids (submobjects s))"
  unfolding MCollection_pop_returned [OF assms]
  by (simp_all add: logic_pop_step)

lemma map_eid_set_index_loop:
  "map eid (state_of (set_index_loop is old es)) = map eid es"
proof (induction "is" arbitrary: old es)
  case Nil
  then show ?case by simp
next
  case (Cons i rest)
  show ?case
  proof (cases "norm_index (length es) i")
    case None
    then show ?thesis by simp
  next
    case (Some k)
    show ?thesis
    proof (cases "index (es ! k)")
      case None
      with Some show ?thesis by simp
    next
      case c: (Some c)
      let ?es' = "es[k := (es ! k)\<lparr>index := Some (text_move_to old (tbox c))\<rparr>]"
      have "map eid ?es' = map eid es" by (rule map_eid_update) simp
      with Cons.IH [of c ?es'] Some c show ?thesis by simp
    qed
  qed
qed

lemma MArray_pop_step:
  assumes "norm_index (length (elements s)) i = Some k"
  shows "map eid (elements (state_of (MArray_pop s i))) =
           take k (map eid (elements s)) @ drop (Suc k) (map eid (elements s))"
    and "elem_ids (submobjects (state_of (MArray_pop s i))) =
           remove1 (eid (elements s ! k)) (elem_ids (submobjects s))"
proof -
  from assms have "k < length (elements s)" by (rule norm_index_less)
  then have ne: "elements s \<noteq> []" by auto
  note c = MCollection_pop_step [OF assms]
  from c(1) obtain s1 where s1: "MCollection_pop s i = Returned s1"
    by (cases "MCollection_pop s i") simp_all
  note c1 = c(2,3) [unfolded s1, simplified]
  have "map eid (elements (state_of (MArray_pop s i))) = map eid (elements s1)
    \<and> submobjects (state_of (MArray_pop s i)) = submobjects s1"
  proof (cases "index_enabled s1")
    case False
    with assms ne s1 show ?thesis by (simp add: MArray_pop_def)
  next
    case True
    show ?thesis
    proof (cases "index (elements s ! k)")
      case None
      with assms ne s1 True show ?thesis by (simp add: MArray_pop_def)
    next
      case (Some p)
      with assms ne s1 True have
        "MArray_pop s i = set_index_from s1 i (int (length (elements s1)) - 1) p"
        by (simp add: MArray_pop_def)
      then show ?thesis
        by (simp add: state_of_set_index_from map_eid_set_index_loop)
    qed
  qed
  with c1
  show "map eid (elements (state_of (MArray_pop s i))) =
           take k (map eid (elements s)) @ drop (Suc k) (map eid (elements s))"
    and "elem_ids (submobjects (state_of (MArray_pop s i))) =
           remove1 (eid (elements s ! k)) (elem_ids (submobjects s))"
    by simp_all
qed

lemma MArray_pop_refused:
  "norm_index (length (elements s)) i = None \<Longrightarrow> state_of (MArray_pop s i) = s"
  by (simp add: MArray_pop_def)

lemma MStack_pop_step:
  assumes "elements t \<noteq> []"
  shows "error_of (MStack_pop t) = None"
    and "map eid (elements (state_of (MStack_pop t))) = butlast (map eid (elements t))"
    and "elem_ids (submobjects (state_of (MStack_pop t))) =
           remove1 (eid (last (elements t))) (elem_ids (submobjects t))"
proof -
  let ?k = "length (elements t) - 1"
  have n: "norm_index (length (elements t)) (int (length (elements t)) - 1) = Some ?k"
    using assms by (auto simp: norm_index_def nat_diff_distrib')
  note c = MCollection_pop_step [OF n]
  have la: "elements t ! ?k = last (elements t)"
    using assms by (simp add: last_conv_nth)
  have bl: "take ?k (map eid (elements t)) @ drop (Suc ?k) (map eid (elements t)) =
            butlast (map eid (elements t))"
    using assms by (simp add: butlast_conv_take)
  from c la bl
  show "error_of (MStack_pop t) = None"
    and "map eid (elements (state_of (MStack_pop t))) = butlast (map eid (elements t))"
    and "elem_ids (submobjects (state_of (MStack_pop t))) =
           remove1 (eid (last (elements t))) (elem_ids (submobjects t))"
    unfolding MStack_pop_def by simp_all
qed

lemma MStack_pop_empty: "elements t = [] \<Longrightarrow> MStack_pop t = Returned t"
  by (simp add: MStack_pop_def MCollection_pop_def)

text \<open>
  C1. Let \<open>s\<close> be an \<open>MArray\<close> and \<open>t\<close> an \<open>MStack\<close>, each built by its constructor and
  then put through any script of \<open>append\<close> and \<open>pop\<close> calls (for the array, of \<open>add_indexes\<close>
  calls as well). In \<open>s\<close> and in \<open>t\<close> the elements attached to the visual group are exactly
  the elements of the list, each once, so that the two have the same length. One more
  \<open>append\<close> returns, puts one new element at the end of the list, showing the value, and
  attaches exactly that element to the group. One more \<open>pop\<close> with an index the list
  accepts takes exactly the element at that position out of the list and detaches exactly
  that element from the group, whether or not the renumbering of the captions then
  raises; with an index the list refuses, or on an empty collection, it changes nothing.
  \<open>MStack.pop\<close> on a non-empty stack returns and does this for the last element.
\<close>

theorem attached_elements_count:
  assumes "s = MArray_run E (state_of (MArray_init E arr d st)) ops"
    and "t = MStack_run E (MStack_init E arr' buff st') sops"
  shows
   "(length (elem_ids (submobjects s)) = length (elements s)
       \<and> set (elem_ids (submobjects s)) = set (map eid (elements s))
       \<and> distinct (elem_ids (submobjects s)) \<and> distinct (map eid (elements s)))
    \<and> (length (elem_ids (submobjects t)) = length (elements t)
       \<and> set (elem_ids (submobjects t)) = set (map eid (elements t))
       \<and> distinct (elem_ids (submobjects t)) \<and> distinct (map eid (elements t)))
    \<and> (error_of (MArray_append E s v) = None
       \<and> (\<exists>e. elements (state_of (MArray_append E s v)) = elements s @ [e]
              \<and> eid e = next_id s \<and> eid e \<notin> set (map eid (elements s))
              \<and> str (value_text e) = py_str E v)
       \<and> elem_ids (submobjects (state_of (MArray_append E s v))) =
           elem_ids (submobjects s) @ [next_id s])
    \<and> ((\<exists>e. elements (MStack_append E t v) = elements t @ [e]
              \<and> eid e = next_id t \<and> eid e \<notin> set (map eid (elements t))
              \<and> str (value_text e) = py_str E v)
       \<and> elem_ids (submobjects (MStack_append E t v)) = elem_ids (submobjects t) @ [next_id t])
    \<and> (\<forall>k. norm_index (length (elements s)) i = Some k \<longrightarrow>
          map eid (elements (state_of (MArray_pop s i))) =
            take k (map eid (elements s)) @ drop (Suc k) (map eid (elements s))
        \<and> elem_ids (submobjects (state_of (MArray_pop s i))) =
            remove1 (eid (elements s ! k)) (elem_ids (submobjects s))
        \<and> eid (elements s ! k) \<in> set (elem_ids (submobjects s))
        \<and> Suc (length (elements (state_of (MArray_pop s i)))) = length (elements s)
        \<and> Suc (length (elem_ids (submobjects (state_of (MArray_pop s i))))) =
            length (elem_ids (submobjects s)))
    \<and> (norm_index (length (elements s)) i = None \<longrightarrow> state_of (MArray_pop s i) = s)
    \<and> (elements t \<noteq> [] \<longrightarrow>
          error_of (MStack_pop t) = None
        \<and> map eid (elements (state_of (MStack_pop t))) = butlast (map eid (elements t))
        \<and> elem_ids (submobjects (state_of (MStack_pop t))) =
            remove1 (eid (last (elements t))) (elem_ids (submobjects t))
        \<and> eid (last (elements t)) \<in> set (elem_ids (submobjects t))
        \<and> Suc (length (elements (state_of (MStack_pop t)))) = length (elements t)
        \<and> Suc (length (elem_ids (submobjects (state_of (MStack_pop t))))) =
            length (elem_ids (submobjects t)))
    \<and> (elements t = [] \<longrightarrow> MStack_pop t = Returned t)"
proof -
  have a: "arr_inv s"
    unfolding assms(1) using arr_inv_MArray_run [OF arr_inv_MArray_init] .
  then have cs: "coll_inv s" by (simp add: arr_inv_def)
  have ct: "coll_inv t"
    unfolding assms(2) using coll_inv_MStack_run [OF coll_inv_MStack_init] .
  have 1: "length (elem_ids (submobjects s)) = length (elements s)
       \<and> set (elem_ids (submobjects s)) = set (map eid (elements s))
       \<and> distinct (elem_ids (submobjects s)) \<and> distinct (map eid (elements s))"
    using cs coll_inv_length [OF cs] unfolding coll_inv_def by blast
  have 2: "length (elem_ids (submobjects t)) = length (elements t)
       \<and> set (elem_ids (submobjects t)) = set (map eid (elements t))
       \<and> distinct (elem_ids (submobjects t)) \<and> distinct (map eid (elements t))"
    using ct coll_inv_length [OF ct] unfolding coll_inv_def by blast
  have 3: "error_of (MArray_append E s v) = None
       \<and> (\<exists>e. elements (state_of (MArray_append E s v)) = elements s @ [e]
              \<and> eid e = next_id s \<and> eid e \<notin> set (map eid (elements s))
              \<and> str (value_text e) = py_str E v)
       \<and> elem_ids (submobjects (state_of (MArray_append E s v))) =
           elem_ids (submobjects s) @ [next_id s]"
    using MArray_append_step [OF a, of E v] coll_inv_fresh(1) [OF cs] by auto
  have 4: "(\<exists>e. elements (MStack_append E t v) = elements t @ [e]
              \<and> eid e = next_id t \<and> eid e \<notin> set (map eid (elements t))
              \<and> str (value_text e) = py_str E v)
       \<and> elem_ids (submobjects (MStack_append E t v)) = elem_ids (submobjects t) @ [next_id t]"
    unfolding MStack_append_def
    using MCollection_append_step [OF ct, of E v] coll_inv_fresh(1) [OF ct] by auto
  have 5: "map eid (elements (state_of (MArray_pop s i))) =
            take k (map eid (elements s)) @ drop (Suc k) (map eid (elements s))
        \<and> elem_ids (submobjects (state_of (MArray_pop s i))) =
            remove1 (eid (elements s ! k)) (elem_ids (submobjects s))
        \<and> eid (elements s ! k) \<in> set (elem_ids (submobjects s))
        \<and> Suc (length (elements (state_of (MArray_pop s i)))) = length (elements s)
        \<and> Suc (length (elem_ids (submobjects (state_of (MArray_pop s i))))) =
            length (elem_ids (submobjects s))"
    if n: "norm_index (length (elements s)) i = Some k" for k
  proof -
    from n have k: "k < length (elements s)" by (rule norm_index_less)
    note p = MArray_pop_step [OF n]
    have m: "eid (elements s ! k) \<in> set (elem_ids (submobjects s))"
      using 1 k by simp
    have "length (map eid (elements (state_of (MArray_pop s i)))) =
          length (take k (map eid (elements s)) @ drop (Suc k) (map eid (elements s)))"
      by (simp only: p(1))
    then have l1: "Suc (length (elements (state_of (MArray_pop s i)))) = length (elements s)"
      using k by simp
    have l2: "Suc (length (elem_ids (submobjects (state_of (MArray_pop s i))))) =
            length (elem_ids (submobjects s))"
      unfolding p(2) using m by (simp add: length_remove1) (metis Suc_pred length_pos_if_in_set)
    from p m l1 l2 show ?thesis by simp
  qed
  have 6: "state_of (MArray_pop s i) = s" if "norm_index (length (elements s)) i = None"
    using that by (rule MArray_pop_refused)
  have 7: "error_of (MStack_pop t) = None
        \<and> map eid (elements (state_of (MStack_pop t))) = butlast (map eid (elements t))
        \<and> elem_ids (submobjects (state_of (MStack_pop t))) =
            remove1 (eid (last (elements t))) (elem_ids (submobjects t))
        \<and> eid (last (elements t)) \<in> set (elem_ids (submobjects t))
        \<and> Suc (length (elements (state_of (MStack_pop t)))) = length (elements t)
        \<and> Suc (length (elem_ids (submobjects (state_of (MStack_pop t))))) =
            length (elem_ids (submobjects t))"
    if ne: "elements t \<noteq> []"
  proof -
    note p = MStack_pop_step [OF ne]
    have m: "eid (last (elements t)) \<in> set (elem_ids (submobjects t))"
      using 2 ne by simp
    have "length (map eid (elements (state_of (MStack_pop t)))) =
          length (butlast (map eid (elements t)))"
      by (simp only: p(2))
    then have l1: "Suc (length (elements (state_of (MStack_pop t)))) = length (elements t)"
      using ne by simp
    have l2: "Suc (length (elem_ids (submobjects (state_of (MStack_pop t))))) =
            length (elem_ids (submobjects t))"
      unfolding p(3) using m by (simp add: length_remove1) (metis Suc_pred length_pos_if_in_set)
    from p m l1 l2 show ?thesis by simp
  qed
  have 8: "MStack_pop t = Returned t" if "elements t = []"
    using that by (rule MStack_pop_empty)
  from 1 2 3 4 5 6 7 8 show ?thesis by blast
qed

lemma example_indexed_run:
  "example_indexed =
     MArray_run example_env
       (state_of (MArray_init example_env [PInt 1, PInt 2, PInt 3] RIGHT DEFAULT_style))
       [AddIndexes UP (1 / 4)]"
  by (simp add: example_indexed_def example_array_def)

lemma example_stack_run:
  "example_stack =
     MStack_run example_env (MStack_init example_env [PInt 1, PInt 2] (1 / 10) DEFAULT_style) []"
  by (simp add: example_stack_def)

lemma example_indexed_ids:
  "map eid (elements example_indexed) = [1, 2, 3]"
  "elem_ids (submobjects example_indexed) = [1, 2, 3]"
  "next_id example_indexed = 5"
  by (simp_all add: example_indexed_value)

lemma MCollection_append_ids:
  assumes "coll_inv s"
  shows "map eid (elements (MCollection_append E s v)) = map eid (elements s) @ [next_id s]"
    and "elem_ids (submobjects (MCollection_append E s v)) =
           elem_ids (submobjects s) @ [next_id s]"
    and "next_id (MCollection_append E s v) = Suc (next_id s)"
proof -
  from MCollection_append_step(1) [OF assms, of E v]
  show "map eid (elements (MCollection_append E s v)) = map eid (elements s) @ [next_id s]"
    by auto
  show "elem_ids (submobjects (MCollection_append E s v)) =
           elem_ids (submobjects s) @ [next_id s]"
    by (rule MCollection_append_step(2) [OF assms])
  show "next_id (MCollection_append E s v) = Suc (next_id s)"
    by (simp add: MCollection_append_def Let_def append_helper_def)
qed

lemma example_stack_ids:
  "map eid (elements example_stack) = [1, 2]"
  "elem_ids (submobjects example_stack) = [1, 2]"
  "next_id example_stack = 3"
proof -
  let ?s0 = "\<lparr>elements = [], submobjects = [HiddenElem 0],
                hidden_element =
                  MElement 0 (Rectangle (square_width DEFAULT_style) (square_height DEFAULT_style))
                    (Text (value_size example_env) ''0''),
                style = DEFAULT_style, dir = UP, margin = 1 / 10, next_id = 1,
                bottom_line = Line ORIGIN ORIGIN, left_line = Line ORIGIN ORIGIN,
                right_line = Line ORIGIN ORIGIN, spawnpoint = None\<rparr>"
  let ?s1 = "MCollection_append example_env ?s0 (PInt 1)"
  let ?s2 = "MCollection_append example_env ?s1 (PInt 2)"
  have c0: "coll_inv ?s0" by (simp add: coll_inv_def)
  note a1 = MCollection_append_ids [OF c0, of example_env "PInt 1"]
  have c1: "coll_inv ?s1" using c0 by (rule coll_inv_MCollection_append)
  note a2 = MCollection_append_ids [OF c1, of example_env "PInt 2"]
  have ids: "map eid (elements ?s2) = [1, 2]" "elem_ids (submobjects ?s2) = [1, 2]"
    "next_id ?s2 = 3"
    unfolding a2 a1 by simp_all
  have m: "map eid (elements example_stack) = map eid (elements ?s2)"
    "elem_ids (submobjects example_stack) = elem_ids (submobjects ?s2)"
    "next_id example_stack = next_id ?s2"
    by (simp_all add: example_stack_def MStack_init_def Let_def stack_shift_def
        collection_shift_def comp_def MStack_append_def)
  from m ids show "map eid (elements example_stack) = [1, 2]"
    "elem_ids (submobjects example_stack) = [1, 2]"
    "next_id example_stack = 3"
    by simp_all
qed

theorem attached_elements_count_witness:
  "length (elements example_indexed) = 3 \<and> norm_index 3 (- 1) = Some 2
   \<and> norm_index 3 7 = None \<and> elements example_stack \<noteq> []
   \<and> error_of (MArray_append example_env example_indexed (PInt 4)) = None
   \<and> map eid (elements (state_of (MArray_append example_env example_indexed (PInt 4)))) =
       [1, 2, 3, 5]
   \<and> elem_ids (submobjects (state_of (MArray_append example_env example_indexed (PInt 4)))) =
       [1, 2, 3, 5]
   \<and> map eid (elements (state_of (MArray_pop example_indexed (- 1)))) = [1, 2]
   \<and> elem_ids (submobjects (state_of (MArray_pop example_indexed (- 1)))) = [1, 2]
   \<and> state_of (MArray_pop example_indexed 7) = example_indexed
   \<and> map eid (elements (MStack_append example_env example_stack (PInt 4))) = [1, 2, 3]
   \<and> elem_ids (submobjects (MStack_append example_env example_stack (PInt 4))) = [1, 2, 3]
   \<and> error_of (MStack_pop example_stack) = None
   \<and> map eid (elements (state_of (MStack_pop example_stack))) = [1]
   \<and> elem_ids (submobjects (state_of (MStack_pop example_stack))) = [1]"
proof -
  have l: "length (elements example_indexed) = 3"
    using arg_cong [OF example_indexed_ids(1), of length] by simp
  have ne: "elements example_stack \<noteq> []"
    using example_stack_ids(1) by auto
  have la: "eid (elements example_indexed ! 2) = 3" "eid (last (elements example_stack)) = 2"
    using arg_cong [OF example_indexed_ids(1), of "\<lambda>xs. xs ! 2"] l
      arg_cong [OF example_stack_ids(1), of last] ne
    by (simp_all add: last_map)
  note w1 = attached_elements_count [OF example_indexed_run example_stack_run,
      where v = "PInt 4" and i = "- 1"]
  note w2 = attached_elements_count [OF example_indexed_run example_stack_run,
      where v = "PInt 4" and i = 7]
  from w1 have a: "error_of (MArray_append example_env example_indexed (PInt 4)) = None
   \<and> map eid (elements (state_of (MArray_append example_env example_indexed (PInt 4)))) =
       [1, 2, 3, 5]
   \<and> elem_ids (submobjects (state_of (MArray_append example_env example_indexed (PInt 4)))) =
       [1, 2, 3, 5]
   \<and> map eid (elements (MStack_append example_env example_stack (PInt 4))) = [1, 2, 3]
   \<and> elem_ids (submobjects (MStack_append example_env example_stack (PInt 4))) = [1, 2, 3]"
    by (auto simp: example_indexed_ids example_stack_ids)
  from w1 have b: "map eid (elements (state_of (MArray_pop example_indexed (- 1)))) = [1, 2]
   \<and> elem_ids (submobjects (state_of (MArray_pop example_indexed (- 1)))) = [1, 2]"
    by (simp add: l la norm_index_def example_indexed_ids)
  from w1 ne have c: "error_of (MStack_pop example_stack) = None
   \<and> map eid (elements (state_of (MStack_pop example_stack))) = [1]
   \<and> elem_ids (submobjects (state_of (MStack_pop example_stack))) = [1]"
    by (simp add: la example_stack_ids)
  from w2 have d: "state_of (MArray_pop example_indexed 7) = example_indexed"
    by (simp add: l norm_index_def)
  from a b c d l ne show ?thesis by (simp add: norm_index_def)
qed

section \<open>Removing an element\<close>

text \<open>
  C4 at its failing input. \<open>MArray([1, 2, 3]).pop()\<close>, the index left at its default
  \<open>-1\<close>: the squares are centred at \<open>-1\<close>, \<open>0\<close> and \<open>1\<close> on the x axis before; afterwards the
  element that was at position 1, before the removed position 2, is centred at \<open>-1\<close>, on
  top of the element at position 0.
\<close>

theorem pop_default_moves_earlier_element:
  "map (\<lambda>e. get_center (square e)) (elements example_array) =
     [(- 1, 0, 0), (0, 0, 0), (1, 0, 0)]
   \<and> error_of (MCollection_pop example_array (- 1)) = None
   \<and> map (\<lambda>e. get_center (square e)) (elements (state_of (MCollection_pop example_array (- 1)))) =
     [(- 1, 0, 0), (- 1, 0, 0)]
   \<and> map (\<lambda>e. get_center (square e)) (elements (state_of (MArray_pop example_array (- 1)))) =
     [(- 1, 0, 0), (- 1, 0, 0)]"
  unfolding example_array_value
  by (simp add: eval_defs)

text \<open>
  C5 at its failing input. \<open>MArray([1, 2, 3]).add_indexes().pop()\<close>: the captions of the
  two remaining elements read \<open>1\<close> and \<open>0\<close>, not \<open>0\<close> and \<open>1\<close>. On \<open>MArray([7]).add_indexes()\<close>
  the same call removes the element and then raises \<open>IndexError\<close>.
\<close>

theorem pop_default_captions:
  "map (\<lambda>e. map_option str (index e)) (elements example_indexed) =
     [Some ''0'', Some ''1'', Some ''2'']
   \<and> error_of (MArray_pop example_indexed (- 1)) = None
   \<and> map (\<lambda>e. map_option str (index e)) (elements (state_of (MArray_pop example_indexed (- 1)))) =
     [Some ''1'', Some ''0'']
   \<and> error_of (MArray_pop example_single (- 1)) = Some IndexError
   \<and> elements (state_of (MArray_pop example_single (- 1))) = []"
  unfolding example_indexed_value example_single_value
  by (simp add: eval_defs upto_examples)

section \<open>Nodes and edges of a graph\<close>

lemma graph_ok_empty: "graph_ok (MGraph_empty st)"
  by (simp add: graph_ok_def MGraph_empty_def)

lemma nodes_ok_empty: "nodes_ok (MGraph_empty st)"
  by (simp add: nodes_ok_def MGraph_empty_def)

lemma add_node_returns: "error_of (add_node g name pos) = None"
  by (simp add: add_node_def Let_def)

lemma add_node_fields:
  "edges (state_of (add_node g name pos)) = edges g
   \<and> lines (state_of (add_node g name pos)) = lines g
   \<and> graph_next_id (state_of (add_node g name pos)) = Suc (graph_next_id g)
   \<and> nodes (state_of (add_node g name pos)) =
       (nodes g)(name \<mapsto> \<lparr>nid = graph_next_id g, circle_center = pos,
                             circle_radius = node_radius (graph_style g),
                             node_label = \<lparr>gtext = name, gpos = pos\<rparr>\<rparr>)
   \<and> submob_dict (state_of (add_node g name pos)) =
       (submob_dict g)(NodeKey name \<mapsto> NodeObj (graph_next_id g))"
  by (simp add: add_node_def vdict_add_def Let_def)

lemma graph_ok_add_node: "graph_ok g \<Longrightarrow> graph_ok (state_of (add_node g name pos))"
  by (simp add: graph_ok_def add_node_fields)

lemma nodes_ok_add_node: "nodes_ok g \<Longrightarrow> nodes_ok (state_of (add_node g name pos))"
  unfolding nodes_ok_def by (auto simp: add_node_fields less_Suc_eq)

text \<open>The line a \<open>StraightEdge\<close> leaves at its address, and the edge it builds.\<close>

lemma StraightEdge_result:
  assumes "heap a = Some l"
  shows "StraightEdge heap i a c1 c2 r1 r2 arrow =
     (heap(a \<mapsto> \<lparr>line_start = fst (StraightEdge_get_line_start_end c1 c2 r1 r2),
                    line_end = snd (StraightEdge_get_line_start_end c1 c2 r1 r2),
                    has_tip = (arrow \<or> has_tip l)\<rparr>),
      \<lparr>edge_id = i, line = a, label = None, label_distance = None,
       highlighting = \<lparr>line_start = fst (StraightEdge_get_line_start_end c1 c2 r1 r2),
                       line_end = snd (StraightEdge_get_line_start_end c1 c2 r1 r2),
                       has_tip = (arrow \<or> has_tip l)\<rparr>\<rparr>)"
  using assms by (cases l) (simp add: StraightEdge_def Let_def)


lemma is_weighted_weighted [simp]: "is_weighted (weighted heap e t d)"
  by (simp add: is_weighted_def weighted_def)

lemma line_weighted [simp]: "line (weighted heap e t d) = line e"
  by (simp add: weighted_def)

lemma edge_id_weighted [simp]: "edge_id (weighted heap e t d) = edge_id e"
  by (simp add: weighted_def)

text \<open>\<open>add_edge\<close> when the opposite edge is not there.\<close>

lemma add_edge_fresh:
  assumes "nodes g a = Some n1" "nodes g b = Some n2" "edges g (b, a) = None"
  shows "error_of (add_edge E g a b w ld) = None"
    and "nodes (state_of (add_edge E g a b w ld)) = nodes g"
    and "graph_next_id (state_of (add_edge E g a b w ld)) = graph_next_id g + 3"
    and "lines (state_of (add_edge E g a b w ld)) =
          (lines g)(graph_next_id g \<mapsto>
            \<lparr>line_start = fst (StraightEdge_get_line_start_end (circle_center n1)
                                (circle_center n2) (circle_radius n1) (circle_radius n2)),
             line_end = snd (StraightEdge_get_line_start_end (circle_center n1)
                              (circle_center n2) (circle_radius n1) (circle_radius n2)),
             has_tip = True\<rparr>)"
    and "submob_dict (state_of (add_edge E g a b w ld)) =
          (submob_dict g)(EdgeKey (a, b) \<mapsto> EdgeObj (graph_next_id g + 1))"
    and "dom (edges (state_of (add_edge E g a b w ld))) = insert (a, b) (dom (edges g))"
    and "\<forall>k. k \<noteq> (a, b) \<longrightarrow> edges (state_of (add_edge E g a b w ld)) k = edges g k"
    and "\<exists>e. edges (state_of (add_edge E g a b w ld)) (a, b) = Some e
           \<and> line e = graph_next_id g \<and> is_weighted e = truthy w"
  using assms
  by (simp_all add: add_edge_def Let_def StraightEdge_result vdict_add_def is_weighted_def
      weighted_def)

text \<open>\<open>add_edge\<close> when the opposite edge is there and known to the \<open>VDict\<close>.\<close>

lemma add_edge_reverse:
  assumes "nodes g a = Some n1" "nodes g b = Some n2" "edges g (b, a) = Some old"
    and "submob_dict g (EdgeKey (b, a)) = Some ob"
  shows "error_of (add_edge E g a b w ld) = None"
    and "nodes (state_of (add_edge E g a b w ld)) = nodes g"
    and "graph_next_id (state_of (add_edge E g a b w ld)) = graph_next_id g + 3"
    and "lines (state_of (add_edge E g a b w ld)) =
          (lines g)(graph_next_id g \<mapsto>
            \<lparr>line_start = fst (StraightEdge_get_line_start_end (circle_center n2)
                                (circle_center n1) (circle_radius n2) (circle_radius n1)),
             line_end = snd (StraightEdge_get_line_start_end (circle_center n2)
                              (circle_center n1) (circle_radius n2) (circle_radius n1)),
             has_tip = False\<rparr>)"
    and "submob_dict (state_of (add_edge E g a b w ld)) =
          (submob_dict g)(EdgeKey (b, a) \<mapsto> EdgeObj (graph_next_id g + 2),
                          EdgeKey (a, b) \<mapsto> EdgeObj (graph_next_id g + 1))"
    and "dom (edges (state_of (add_edge E g a b w ld))) =
          insert (a, b) (insert (b, a) (dom (edges g)))"
    and "\<forall>k. k \<noteq> (a, b) \<longrightarrow> k \<noteq> (b, a) \<longrightarrow>
           edges (state_of (add_edge E g a b w ld)) k = edges g k"
  using assms
  by (simp_all add: add_edge_def Let_def StraightEdge_result vdict_add_def vdict_remove_def)

lemma add_edge_reverse_new:
  assumes "nodes g a = Some n1" "nodes g b = Some n2" "edges g (b, a) = Some old"
    and "submob_dict g (EdgeKey (b, a)) = Some ob"
  shows "\<exists>e. edges (state_of (add_edge E g a b w ld)) (a, b) = Some e
           \<and> line e = graph_next_id g \<and> is_weighted e = truthy w"
  using assms
  by (cases "truthy w")
    (simp_all add: add_edge_def Let_def StraightEdge_result vdict_add_def vdict_remove_def
      is_weighted_def weighted_def)

lemma add_edge_reverse_old:
  assumes "nodes g a = Some n1" "nodes g b = Some n2" "edges g (b, a) = Some old"
    and "submob_dict g (EdgeKey (b, a)) = Some ob"
  shows "\<exists>r. edges (state_of (add_edge E g a b w ld)) (b, a) = Some r
           \<and> line r = graph_next_id g \<and> (a \<noteq> b \<longrightarrow> \<not> is_weighted r)"
proof (cases "a = b")
  case True
  with add_edge_reverse_new [OF assms, of E w ld] show ?thesis by auto
next
  case False
  with assms show ?thesis
    by (cases "truthy w")
      (simp_all add: add_edge_def Let_def StraightEdge_result vdict_add_def vdict_remove_def
        is_weighted_def weighted_def)
qed


lemma error_of_None: "error_of r = None \<Longrightarrow> r = Returned (state_of r)"
  by (cases r) simp_all

lemma and_then_returned: "error_of r = None \<Longrightarrow> and_then r f = f (state_of r)"
  by (cases r) simp_all

text \<open>\<open>add_edge\<close> on existing nodes of a graph whose \<open>VDict\<close> knows its edges.\<close>

lemma add_edge_ok:
  assumes "graph_ok g" "nodes g a = Some n1" "nodes g b = Some n2"
  shows "error_of (add_edge E g a b w ld) = None"
    and "nodes (state_of (add_edge E g a b w ld)) = nodes g"
    and "graph_ok (state_of (add_edge E g a b w ld))"
    and "dom (edges (state_of (add_edge E g a b w ld))) = insert (a, b) (dom (edges g))"
    and "\<exists>e. edges (state_of (add_edge E g a b w ld)) (a, b) = Some e
           \<and> line e = graph_next_id g \<and> is_weighted e = truthy w"
    and "\<exists>t. lines (state_of (add_edge E g a b w ld)) (graph_next_id g) = Some t
           \<and> has_tip t = (edges g (b, a) = None)"
proof -
  let ?g' = "state_of (add_edge E g a b w ld)"
  have "error_of (add_edge E g a b w ld) = None
    \<and> nodes ?g' = nodes g \<and> graph_ok ?g'
    \<and> dom (edges ?g') = insert (a, b) (dom (edges g))
    \<and> (\<exists>e. edges ?g' (a, b) = Some e \<and> line e = graph_next_id g \<and> is_weighted e = truthy w)
    \<and> (\<exists>t. lines ?g' (graph_next_id g) = Some t \<and> has_tip t = (edges g (b, a) = None))"
  proof (cases "edges g (b, a)")
    case None
    note f = add_edge_fresh [OF assms(2,3) None, of E w ld]
    have "graph_ok ?g'"
      using assms(1) f(7) unfolding graph_ok_def f(5) by (metis fun_upd_apply option.distinct(1))
    with f None show ?thesis by simp
  next
    case (Some old)
    with assms(1) obtain ob where ob: "submob_dict g (EdgeKey (b, a)) = Some ob"
      unfolding graph_ok_def by fastforce
    note f = add_edge_reverse [OF assms(2,3) Some ob, of E w ld]
    note n = add_edge_reverse_new [OF assms(2,3) Some ob, of E w ld]
    have "graph_ok ?g'"
      using assms(1) f(7) unfolding graph_ok_def f(5) by (metis fun_upd_apply option.distinct(1))
    moreover have "insert (a, b) (insert (b, a) (dom (edges g))) = insert (a, b) (dom (edges g))"
      using Some by auto
    ultimately show ?thesis using f n Some by simp
  qed
  then show "error_of (add_edge E g a b w ld) = None"
    and "nodes ?g' = nodes g" and "graph_ok ?g'"
    and "dom (edges ?g') = insert (a, b) (dom (edges g))"
    and "\<exists>e. edges ?g' (a, b) = Some e \<and> line e = graph_next_id g \<and> is_weighted e = truthy w"
    and "\<exists>t. lines ?g' (graph_next_id g) = Some t \<and> has_tip t = (edges g (b, a) = None)"
    by simp_all
qed


lemma add_edge_ok_reverse:
  assumes "graph_ok g" "nodes g a = Some n1" "nodes g b = Some n2" "edges g (b, a) \<noteq> None"
  shows "\<exists>r. edges (state_of (add_edge E g a b w ld)) (b, a) = Some r \<and> line r = graph_next_id g"
    and "lines (state_of (add_edge E g a b w ld)) (graph_next_id g) =
          Some \<lparr>line_start = fst (StraightEdge_get_line_start_end (circle_center n2)
                                (circle_center n1) (circle_radius n2) (circle_radius n1)),
                line_end = snd (StraightEdge_get_line_start_end (circle_center n2)
                              (circle_center n1) (circle_radius n2) (circle_radius n1)),
                has_tip = False\<rparr>"
proof -
  from assms(4) obtain old where old: "edges g (b, a) = Some old" by auto
  with assms(1) obtain ob where ob: "submob_dict g (EdgeKey (b, a)) = Some ob"
    unfolding graph_ok_def by fastforce
  from add_edge_reverse_old [OF assms(2,3) old ob, of E w ld]
  show "\<exists>r. edges (state_of (add_edge E g a b w ld)) (b, a) = Some r \<and> line r = graph_next_id g"
    by blast
  show "lines (state_of (add_edge E g a b w ld)) (graph_next_id g) =
          Some \<lparr>line_start = fst (StraightEdge_get_line_start_end (circle_center n2)
                                (circle_center n1) (circle_radius n2) (circle_radius n1)),
                line_end = snd (StraightEdge_get_line_start_end (circle_center n2)
                              (circle_center n1) (circle_radius n2) (circle_radius n1)),
                has_tip = False\<rparr>"
    by (simp add: add_edge_reverse(4) [OF assms(2,3) old ob])
qed

text \<open>\<open>add_edge(a, b)\<close> and then \<open>add_edge(b, a)\<close>.\<close>

lemma add_edge_twice:
  assumes "graph_ok g" "nodes g a = Some n1" "nodes g b = Some n2"
  shows "error_of (add_edge E g a b w ld) = None"
    and "error_of (add_edge E (state_of (add_edge E g a b w ld)) b a w' ld') = None"
    and "dom (edges (state_of (add_edge E (state_of (add_edge E g a b w ld)) b a w' ld'))) =
          insert (a, b) (insert (b, a) (dom (edges g)))"
    and "\<exists>e1 e2.
          edges (state_of (add_edge E (state_of (add_edge E g a b w ld)) b a w' ld')) (a, b) = Some e1
        \<and> edges (state_of (add_edge E (state_of (add_edge E g a b w ld)) b a w' ld')) (b, a) = Some e2
        \<and> line e1 = line e2
        \<and> lines (state_of (add_edge E (state_of (add_edge E g a b w ld)) b a w' ld')) (line e1) =
            Some \<lparr>line_start = fst (StraightEdge_get_line_start_end (circle_center n1)
                                  (circle_center n2) (circle_radius n1) (circle_radius n2)),
                  line_end = snd (StraightEdge_get_line_start_end (circle_center n1)
                                (circle_center n2) (circle_radius n1) (circle_radius n2)),
                  has_tip = False\<rparr>"
proof -
  let ?g1 = "state_of (add_edge E g a b w ld)"
  let ?g2 = "state_of (add_edge E ?g1 b a w' ld')"
  note f1 = add_edge_ok [OF assms, of E w ld]
  show "error_of (add_edge E g a b w ld) = None" by (rule f1(1))
  have n1: "nodes ?g1 b = Some n2" and n2: "nodes ?g1 a = Some n1"
    using assms f1(2) by simp_all
  from f1(5) have ex: "edges ?g1 (a, b) \<noteq> None" by auto
  note f2 = add_edge_ok [OF f1(3) n1 n2, of E w' ld']
  note r2 = add_edge_ok_reverse [OF f1(3) n1 n2 ex, of E w' ld']
  show "error_of (add_edge E ?g1 b a w' ld') = None" by (rule f2(1))
  show "dom (edges ?g2) = insert (a, b) (insert (b, a) (dom (edges g)))"
    using f2(4) f1(4) by auto
  from f2(5) obtain e2 where e2: "edges ?g2 (b, a) = Some e2" "line e2 = graph_next_id ?g1"
    by blast
  from r2(1) obtain e1 where e1: "edges ?g2 (a, b) = Some e1" "line e1 = graph_next_id ?g1"
    by blast
  from e1 e2 r2(2)
  show "\<exists>e1 e2.
          edges ?g2 (a, b) = Some e1 \<and> edges ?g2 (b, a) = Some e2 \<and> line e1 = line e2
        \<and> lines ?g2 (line e1) =
            Some \<lparr>line_start = fst (StraightEdge_get_line_start_end (circle_center n1)
                                  (circle_center n2) (circle_radius n1) (circle_radius n2)),
                  line_end = snd (StraightEdge_get_line_start_end (circle_center n1)
                                (circle_center n2) (circle_radius n1) (circle_radius n2)),
                  has_tip = False\<rparr>"
    by simp
qed


lemma example_graph_facts:
  "graph_ok example_graph" "nodes_ok example_graph"
  "nodes example_graph ''A'' =
     Some \<lparr>nid = 0, circle_center = (0, 0, 0), circle_radius = 33 / 100,
           node_label = \<lparr>gtext = ''A'', gpos = (0, 0, 0)\<rparr>\<rparr>"
  "nodes example_graph ''B'' =
     Some \<lparr>nid = 1, circle_center = (2, 0, 0), circle_radius = 33 / 100,
           node_label = \<lparr>gtext = ''B'', gpos = (2, 0, 0)\<rparr>\<rparr>"
  "dom (edges example_graph) = {}"
  "graph_next_id example_graph = 2"
  by (simp_all add: example_graph_def add_node_def vdict_add_def MGraph_empty_def
      GraphStyle_DEFAULT_def ORIGIN_def Let_def graph_ok_def nodes_ok_def)

section \<open>Edges in both directions\<close>

text \<open>
  C2 (as the code has it). On a graph whose \<open>VDict\<close> knows its edges, for existing nodes
  \<open>a\<close> and \<open>b\<close>, \<open>add_edge(a, b)\<close> followed by \<open>add_edge(b, a)\<close> returns; the edge map has the
  keys it had and \<open>(a, b)\<close> and \<open>(b, a)\<close>; the two edges hold one and the same line object, so
  that the start and end points of the \<open>(a, b)\<close> edge are those of the \<open>(b, a)\<close> edge: the two
  edges lie on each other and are not offset.
\<close>

theorem add_edge_both_directions:
  assumes "graph_ok g" "nodes g a = Some n1" "nodes g b = Some n2"
  shows "\<exists>g2. and_then (add_edge E g a b w ld) (\<lambda>g1. add_edge E g1 b a w' ld') = Returned g2
      \<and> dom (edges g2) = insert (a, b) (insert (b, a) (dom (edges g)))
      \<and> (\<exists>e1 e2. edges g2 (a, b) = Some e1 \<and> edges g2 (b, a) = Some e2 \<and> line e1 = line e2)
      \<and> edge_start_end g2 (a, b) \<noteq> None
      \<and> edge_start_end g2 (a, b) = edge_start_end g2 (b, a)"
proof -
  let ?g1 = "state_of (add_edge E g a b w ld)"
  let ?g2 = "state_of (add_edge E ?g1 b a w' ld')"
  note t = add_edge_twice [OF assms]
  have r: "and_then (add_edge E g a b w ld) (\<lambda>g1. add_edge E g1 b a w' ld') = Returned ?g2"
    using t(1,2) by (simp add: and_then_returned error_of_None [symmetric])
  from t(4) obtain e1 e2 l where e: "edges ?g2 (a, b) = Some e1" "edges ?g2 (b, a) = Some e2"
    "line e1 = line e2" "lines ?g2 (line e1) = Some l"
    by blast
  have "edge_start_end ?g2 (a, b) \<noteq> None"
    and "edge_start_end ?g2 (a, b) = edge_start_end ?g2 (b, a)"
    using e by (simp_all add: edge_start_end_def)
  with r t(3) e(1,2,3) show ?thesis by blast
qed

theorem add_edge_both_directions_witness:
  "\<exists>g2. and_then (add_edge example_env example_graph ''A'' ''B'' (PInt 3) (1 / 5))
           (\<lambda>g1. add_edge example_env g1 ''B'' ''A'' (PInt 3) (1 / 5)) = Returned g2
      \<and> dom (edges g2) = {(''A'', ''B''), (''B'', ''A'')}
      \<and> (\<exists>e1 e2. edges g2 (''A'', ''B'') = Some e1 \<and> edges g2 (''B'', ''A'') = Some e2
            \<and> line e1 = line e2)
      \<and> edge_start_end g2 (''A'', ''B'') \<noteq> None
      \<and> edge_start_end g2 (''A'', ''B'') = edge_start_end g2 (''B'', ''A'')"
  using add_edge_both_directions [OF example_graph_facts(1,3,4),
      of example_env "PInt 3" "1 / 5" "PInt 3" "1 / 5"]
  by (simp add: example_graph_facts(5))

text \<open>
  C2 as stated fails: on the graph with nodes \<open>A\<close> at the origin and \<open>B\<close> at \<open>(2, 0, 0)\<close>,
  after \<open>add_edge(A, B)\<close> and \<open>add_edge(B, A)\<close> the two edges have the same line, hence the
  same start point and the same end point.
\<close>

theorem both_directions_overlap_counterexample:
  "edge_start_end example_both (''A'', ''B'') \<noteq> None
   \<and> edge_start_end example_both (''A'', ''B'') = edge_start_end example_both (''B'', ''A'')
   \<and> map_option line (edges example_both (''A'', ''B'')) =
       map_option line (edges example_both (''B'', ''A''))"
proof -
  let ?g1 = "state_of (add_edge example_env example_graph ''A'' ''B'' PNone (1 / 5))"
  let ?g2 = "state_of (add_edge example_env ?g1 ''B'' ''A'' PNone (1 / 5))"
  note t = add_edge_twice [OF example_graph_facts(1,3,4)]
  have b: "example_both = ?g2"
    unfolding example_both_def using t(1) by (simp add: and_then_returned)
  from t(4) [where E = example_env and w = PNone and ld = "1 / 5" and w' = PNone
      and ld' = "1 / 5"]
  obtain e1 e2 l where e: "edges ?g2 (''A'', ''B'') = Some e1" "edges ?g2 (''B'', ''A'') = Some e2"
    "line e1 = line e2" "lines ?g2 (line e1) = Some l"
    by blast
  show ?thesis
    unfolding b using e by (simp add: edge_start_end_def)
qed

section \<open>Arrowheads\<close>

lemma edge_has_tip_eq:
  "edges g k = Some e \<Longrightarrow> lines g (line e) = Some t \<Longrightarrow> edge_has_tip g k = Some (has_tip t)"
  by (simp add: edge_has_tip_def has_arrow_def)

text \<open>
  C3 (as the code has it). On a graph whose \<open>VDict\<close> knows its edges, for existing nodes
  \<open>a\<close> and \<open>b\<close>: the edge that \<open>add_edge(a, b)\<close> stores under \<open>(a, b)\<close> has an arrowhead exactly
  when there was no edge \<open>(b, a)\<close> at the call; when there was one, the call also replaces
  it by an edge without arrowhead. So after \<open>add_edge(a, b)\<close> and \<open>add_edge(b, a)\<close> neither of
  the two edges has an arrowhead.
\<close>

theorem add_edge_arrowhead:
  assumes "graph_ok g" "nodes g a = Some n1" "nodes g b = Some n2"
  shows "(\<exists>g1. add_edge E g a b w ld = Returned g1
            \<and> edge_has_tip g1 (a, b) = Some (edges g (b, a) = None)
            \<and> (edges g (b, a) \<noteq> None \<longrightarrow> edge_has_tip g1 (b, a) = Some False))
       \<and> (\<exists>g2. and_then (add_edge E g a b w ld) (\<lambda>g1. add_edge E g1 b a w' ld') = Returned g2
            \<and> edge_has_tip g2 (a, b) = Some False \<and> edge_has_tip g2 (b, a) = Some False)"
proof
  let ?g1 = "state_of (add_edge E g a b w ld)"
  note f = add_edge_ok [OF assms]
  have r: "add_edge E g a b w ld = Returned ?g1"
    using f(1) by (rule error_of_None)
  from f(5) [of E w ld] obtain e where e: "edges ?g1 (a, b) = Some e" "line e = graph_next_id g"
    by blast
  from f(6) [of E w ld] obtain t where t: "lines ?g1 (graph_next_id g) = Some t"
    "has_tip t = (edges g (b, a) = None)"
    by auto
  have 1: "edge_has_tip ?g1 (a, b) = Some (edges g (b, a) = None)"
    using edge_has_tip_eq [OF e(1), of t] e(2) t by simp
  have 2: "edge_has_tip ?g1 (b, a) = Some False" if ex: "edges g (b, a) \<noteq> None"
  proof -
    from add_edge_ok_reverse(1) [OF assms ex, of E w ld]
    obtain r where "edges ?g1 (b, a) = Some r" "line r = graph_next_id g" by blast
    with t ex show ?thesis using edge_has_tip_eq [of ?g1 "(b, a)" r t] by simp
  qed
  from r 1 2
  show "\<exists>g1. add_edge E g a b w ld = Returned g1
            \<and> edge_has_tip g1 (a, b) = Some (edges g (b, a) = None)
            \<and> (edges g (b, a) \<noteq> None \<longrightarrow> edge_has_tip g1 (b, a) = Some False)"
    by blast
next
  let ?g1 = "state_of (add_edge E g a b w ld)"
  let ?g2 = "state_of (add_edge E ?g1 b a w' ld')"
  note t = add_edge_twice [OF assms]
  have r: "and_then (add_edge E g a b w ld) (\<lambda>g1. add_edge E g1 b a w' ld') = Returned ?g2"
    using t(1,2) by (simp add: and_then_returned error_of_None [symmetric])
  from t(4) [where E = E and w = w and ld = ld and w' = w' and ld' = ld']
  have "edge_has_tip ?g2 (a, b) = Some False \<and> edge_has_tip ?g2 (b, a) = Some False"
    by (auto simp: edge_has_tip_def has_arrow_def)
  with r
  show "\<exists>g2. and_then (add_edge E g a b w ld) (\<lambda>g1. add_edge E g1 b a w' ld') = Returned g2
            \<and> edge_has_tip g2 (a, b) = Some False \<and> edge_has_tip g2 (b, a) = Some False"
    by blast
qed

theorem add_edge_arrowhead_witness:
  "(\<exists>g1. add_edge example_env example_graph ''A'' ''B'' PNone (1 / 5) = Returned g1
      \<and> edge_has_tip g1 (''A'', ''B'') = Some True)
   \<and> (\<exists>g2. and_then (add_edge example_env example_graph ''A'' ''B'' PNone (1 / 5))
              (\<lambda>g1. add_edge example_env g1 ''B'' ''A'' PNone (1 / 5)) = Returned g2
      \<and> edge_has_tip g2 (''A'', ''B'') = Some False
      \<and> edge_has_tip g2 (''B'', ''A'') = Some False)"
proof -
  have n: "edges example_graph (''B'', ''A'') = None"
    using example_graph_facts(5) by (simp add: dom_def)
  show ?thesis
    using add_edge_arrowhead [OF example_graph_facts(1,3,4),
        of example_env PNone "1 / 5" PNone "1 / 5"]
    by (simp add: n)
qed

text \<open>
  C3 as stated fails: on the graph with nodes \<open>A\<close> and \<open>B\<close>, after \<open>add_edge(A, B)\<close> and
  \<open>add_edge(B, A)\<close> the edge \<open>(A, B)\<close>, inserted first, has no arrowhead.
\<close>

theorem first_edge_loses_arrowhead_counterexample:
  "edge_has_tip example_both (''A'', ''B'') = Some False"
proof -
  let ?g1 = "state_of (add_edge example_env example_graph ''A'' ''B'' PNone (1 / 5))"
  let ?g2 = "state_of (add_edge example_env ?g1 ''B'' ''A'' PNone (1 / 5))"
  note t = add_edge_twice [OF example_graph_facts(1,3,4)]
  have b: "example_both = ?g2"
    unfolding example_both_def using t(1) by (simp add: and_then_returned)
  from t(4) [where E = example_env and w = PNone and ld = "1 / 5" and w' = PNone
      and ld' = "1 / 5"]
  show ?thesis
    unfolding b by (auto simp: edge_has_tip_def has_arrow_def)
qed

section \<open>Weights\<close>

lemma add_edge_falsy: "\<not> truthy w \<Longrightarrow> add_edge E g a b w ld = add_edge E g a b PNone ld"
  by (simp add: add_edge_def Let_def case_prod_beta split: option.split)

text \<open>
  C9. On a graph whose \<open>VDict\<close> knows its edges, for existing nodes \<open>a\<close> and \<open>b\<close>, \<open>add_edge\<close>
  with the weight \<open>0\<close> (the integer or the float) does exactly what \<open>add_edge\<close> without a
  weight does: it returns, and the edge under \<open>(a, b)\<close> carries no label. Whatever the
  weight, the new edge is weighted exactly when the weight is truthy.
\<close>

theorem add_edge_zero_weight:
  assumes "graph_ok g" "nodes g a = Some n1" "nodes g b = Some n2"
    and "w = PInt 0 \<or> w = PFloat 0"
  shows "add_edge E g a b w ld = add_edge E g a b PNone ld
       \<and> (\<exists>g1 e. add_edge E g a b w ld = Returned g1 \<and> edges g1 (a, b) = Some e
              \<and> \<not> is_weighted e)
       \<and> (\<forall>w'. \<exists>g1 e. add_edge E g a b w' ld = Returned g1 \<and> edges g1 (a, b) = Some e
              \<and> is_weighted e = truthy w')"
proof -
  have falsy: "\<not> truthy w" using assms(4) by auto
  have gen: "\<exists>g1 e. add_edge E g a b w' ld = Returned g1 \<and> edges g1 (a, b) = Some e
              \<and> is_weighted e = truthy w'" for w'
  proof -
    note f = add_edge_ok [OF assms(1-3)]
    have "add_edge E g a b w' ld = Returned (state_of (add_edge E g a b w' ld))"
      using f(1) by (rule error_of_None)
    with f(5) [of E w' ld] show ?thesis by blast
  qed
  from gen [of w] falsy have "\<exists>g1 e. add_edge E g a b w ld = Returned g1
      \<and> edges g1 (a, b) = Some e \<and> \<not> is_weighted e"
    by simp
  with gen add_edge_falsy [OF falsy] show ?thesis by blast
qed

theorem add_edge_zero_weight_witness:
  "add_edge example_env example_graph ''A'' ''B'' (PInt 0) (1 / 5) =
     add_edge example_env example_graph ''A'' ''B'' PNone (1 / 5)
   \<and> (\<exists>g1 e. add_edge example_env example_graph ''A'' ''B'' (PInt 0) (1 / 5) = Returned g1
          \<and> edges g1 (''A'', ''B'') = Some e \<and> \<not> is_weighted e)
   \<and> (\<exists>g1 e. add_edge example_env example_graph ''A'' ''B'' (PInt 5) (1 / 5) = Returned g1
          \<and> edges g1 (''A'', ''B'') = Some e \<and> is_weighted e)"
proof -
  note t = add_edge_zero_weight [OF example_graph_facts(1,3,4) disjI1 [OF refl],
      of example_env "1 / 5"]
  note t5 = t [THEN conjunct2, THEN conjunct2, THEN spec, of "PInt 5"]
  from t5 have "\<exists>g1 e. add_edge example_env example_graph ''A'' ''B'' (PInt 5) (1 / 5) = Returned g1
          \<and> edges g1 (''A'', ''B'') = Some e \<and> is_weighted e"
    by simp
  with t show ?thesis by blast
qed

section \<open>Adding a node twice\<close>

text \<open>
  C10. On a graph whose nodes were made by \<open>add_node\<close>, \<open>add_node\<close> with a name that is
  already a key of the node map returns (it has no error to raise), and the entry of that
  name is a newly created node at the given position; every other entry is as before,
  and no key leads to the node stored before.
\<close>

theorem add_node_duplicate:
  assumes "nodes_ok g" "nodes g name = Some old"
  shows "\<exists>g1 new. add_node g name pos = Returned g1
       \<and> nodes g1 name = Some new \<and> nid new = graph_next_id g \<and> circle_center new = pos
       \<and> new \<noteq> old
       \<and> (\<forall>k. nodes g1 k \<noteq> Some old)
       \<and> (\<forall>k. k \<noteq> name \<longrightarrow> nodes g1 k = nodes g k)
       \<and> dom (nodes g1) = dom (nodes g)"
proof -
  let ?g1 = "state_of (add_node g name pos)"
  let ?new = "\<lparr>nid = graph_next_id g, circle_center = pos,
               circle_radius = node_radius (graph_style g),
               node_label = \<lparr>gtext = name, gpos = pos\<rparr>\<rparr>"
  have r: "add_node g name pos = Returned ?g1"
    using add_node_returns by (rule error_of_None)
  have n: "nodes ?g1 = (nodes g)(name \<mapsto> ?new)" by (simp add: add_node_fields)
  have lt: "nid old < graph_next_id g" and lb: "gtext (node_label old) = name"
    using assms unfolding nodes_ok_def by blast+
  have ne: "?new \<noteq> old" using lt by auto
  have gone: "nodes ?g1 k \<noteq> Some old" for k
  proof (cases "k = name")
    case True
    with n ne show ?thesis by simp
  next
    case False
    show ?thesis
    proof
      assume "nodes ?g1 k = Some old"
      with n False have "nodes g k = Some old" by simp
      with assms(1) have "gtext (node_label old) = k" unfolding nodes_ok_def by blast
      with lb False show False by simp
    qed
  qed
  have d: "dom (nodes ?g1) = dom (nodes g)" using assms(2) n by auto
  have "nodes ?g1 name = Some ?new \<and> nid ?new = graph_next_id g \<and> circle_center ?new = pos"
    using n by simp
  with r ne gone d n show ?thesis by (intro exI [of _ ?g1] exI [of _ ?new]) simp
qed

theorem add_node_duplicate_witness:
  "\<exists>g1 new. add_node example_graph ''A'' (1, 1, 0) = Returned g1
     \<and> nodes g1 ''A'' = Some new \<and> nid new = 2 \<and> circle_center new = (1, 1, 0)
     \<and> (\<forall>k. nodes g1 k \<noteq> nodes example_graph ''A'')
     \<and> dom (nodes g1) = dom (nodes example_graph)"
  using add_node_duplicate [OF example_graph_facts(2,3), of "(1, 1, 0)"]
  by (simp add: example_graph_facts(3,6)) blast

section \<open>Swapping twice\<close>

lemmas fl64_eval = fl64_def exponent64_def pow2_def round_half_even_def eval_nat_numeral

text \<open>
  The rounding on a few numbers: \<open>0.1\<close> is not a float, a half and \<open>-3\<close> are; above
  \<open>2\<^sup>5\<^sup>3\<close> only the even integers are floats, and a tie goes to the one with the even
  significand.
\<close>

lemma fl64_examples:
  "fl64 (1 / 10) = 3602879701896397 / 36028797018963968"
  "fl64 (1 / 2) = 1 / 2"
  "fl64 (- 3) = - 3"
  "fl64 9007199254740993 = 9007199254740992"
  "fl64 9007199254740995 = 9007199254740996"
  by (simp_all add: fl64_eval Let_def)


lemma length_list_swap [simp]: "length (list_swap xs a b) = length xs"
  by (simp add: list_swap_def)





text \<open>What a shift leaves alone.\<close>

lemma elem_shift64_proj [simp]:
  "eid (elem_shift64 v e) = eid e"
  "str (value_text (elem_shift64 v e)) = str (value_text e)"
  "map_option str (index (elem_shift64 v e)) = map_option str (index e)"
  by (simp_all add: elem_shift64_def text_shift64_def option.map_comp comp_def)

lemma body_shift64_proj [simp]:
  "eid (body_shift64 v e) = eid e"
  "str (value_text (body_shift64 v e)) = str (value_text e)"
  "index (body_shift64 v e) = index e"
  by (simp_all add: body_shift64_def text_shift64_def)

lemma length_MCollection_visual_swap [simp]:
  "length (MCollection_visual_swap es a b) = length es"
  by (simp add: MCollection_visual_swap_def Let_def)

lemma length_MArray_visual_swap [simp]:
  "length (MArray_visual_swap es a b) = length es"
  by (simp add: MArray_visual_swap_def Let_def)









text \<open>
  Where no sum is rounded the second swap does undo the first. The boxes of
  \<open>MArray([1, 2, 3])\<close> with captions have coordinates that are multiples of an eighth:
  \<open>swap(0, 2)\<close> puts the elements 3, 2, 1 on the centres \<open>-1\<close>, \<open>0\<close>, \<open>1\<close>, and a second
  \<open>swap(0, 2)\<close> gives back the list with every box where it was.
\<close>

lemma example_indexed_swap_twice:
  "map (\<lambda>e. (eid e, get_center (square e)))
     (elements (state_of (MArray_swap example_indexed 0 2))) =
     [(3, (- 1, 0, 0)), (2, (0, 0, 0)), (1, (1, 0, 0))]
   \<and> elements (state_of (MArray_swap (state_of (MArray_swap example_indexed 0 2)) 0 2)) =
       elements example_indexed"
  unfolding example_indexed_value
  by (simp add: MArray_swap_def MArray_logic_swap_def MArray_visual_swap_def
      list_swap_def norm_index_def body_shift64_def text_shift64_def box_shift64_def
      move_to_shift64_def get_critical_point64_def extremum64_def body_box_def
      box_union_def DOWN_def group_add_def group_remove_def Let_def fl64_eval
      get_center_def get_critical_point_def extremum_def ORIGIN_def)






end
